theory Spec2Isabelle
  imports Main "HOL-Library.Sublist"
begin

section \<open>Strings as the JavaScript code uses them\<close>

text \<open>
  A JavaScript string is modelled as a \<open>string\<close> (a list of characters). The texts the
  program writes itself (URLs, error messages, the system instruction) are ASCII. A
  model name comes with the request and may hold any character; a character outside
  ASCII stands in it as the bytes of its UTF-8 encoding. A value that may be
  \<open>null\<close> or \<open>undefined\<close> is an \<open>option\<close>, and JavaScript's truthiness of such a value
  (\<open>null\<close>, \<open>undefined\<close> and the empty string are falsy) is \<open>truthyStr\<close>.
\<close>

definition truthyStr :: "string option \<Rightarrow> bool" where
  "truthyStr v = (case v of None \<Rightarrow> False | Some s \<Rightarrow> s \<noteq> [])"

text \<open>\<open>v || ''\<close> for a string or null.\<close>

definition orEmpty :: "string option \<Rightarrow> string" where
  "orEmpty v = (case v of None \<Rightarrow> [] | Some s \<Rightarrow> s)"

text \<open>\<open>s.includes(sub)\<close> (\<open>includes\<close> is reserved in Isabelle): \<open>sub\<close> occurs in \<open>s\<close> as a contiguous run.\<close>

fun includesStr :: "string \<Rightarrow> string \<Rightarrow> bool" where
  "includesStr [] sub = (sub = [])"
| "includesStr (c # cs) sub = (prefix sub (c # cs) \<or> includesStr cs sub)"

text \<open>The lower case of an ASCII character: the letters A to Z move to a to z.\<close>

definition lowerChar :: "char \<Rightarrow> char" where
  "lowerChar c =
     (if 65 \<le> (of_char c :: nat) \<and> (of_char c :: nat) \<le> 90
      then char_of ((of_char c :: nat) + 32) else c)"

text \<open>
  \<open>s.toLowerCase()\<close> follows the Unicode case mapping. Two characters outside ASCII have
  a lower case with an ASCII letter in it: U+212A KELVIN SIGN, whose lower case is \<open>k\<close>,
  and U+0130 LATIN CAPITAL LETTER I WITH DOT ABOVE, whose lower case is \<open>i\<close> followed by
  U+0307 COMBINING DOT ABOVE. They are given here by their UTF-8 encodings.
\<close>

definition KELVIN_SIGN :: string where
  "KELVIN_SIGN = [CHR 0xE2, CHR 0x84, CHR 0xAA]"

definition CAPITAL_I_WITH_DOT :: string where
  "CAPITAL_I_WITH_DOT = [CHR 0xC4, CHR 0xB0]"

definition COMBINING_DOT :: string where
  "COMBINING_DOT = [CHR 0xCC, CHR 0x87]"

text \<open>
  \<open>s.toLowerCase()\<close>, read from left to right: the Kelvin sign and the dotted capital I
  give their lower case, an ASCII letter A to Z gives a to z. The bytes of every other
  character outside ASCII are kept: the lower case of such a character is again made
  of characters outside ASCII, and the program only searches a lower-cased name for
  ASCII text (\<open>includes\<close> of an ASCII word, the pattern \<open>gemini-(\d+)\<close>), which no byte
  of a character outside ASCII can be part of.
\<close>

function toLowerCase :: "string \<Rightarrow> string" where
  "toLowerCase [] = []"
| "toLowerCase (c # cs) =
     (if prefix KELVIN_SIGN (c # cs) then CHR ''k'' # toLowerCase (drop 2 cs)
      else if prefix CAPITAL_I_WITH_DOT (c # cs)
        then CHR ''i'' # COMBINING_DOT @ toLowerCase (drop 1 cs)
      else lowerChar c # toLowerCase cs)"
  by pat_completeness auto
termination
  by (relation "measure length") auto

declare toLowerCase.simps [simp del]

text \<open>The character class \<open>\d\<close> of a JavaScript regular expression: 0 to 9.\<close>

definition isDigit :: "char \<Rightarrow> bool" where
  "isDigit c = (48 \<le> (of_char c :: nat) \<and> (of_char c :: nat) \<le> 57)"

text \<open>\<open>parseInt(ds, 10)\<close> on a run of decimal digits.\<close>

definition parseInt10 :: "string \<Rightarrow> nat" where
  "parseInt10 ds = foldl (\<lambda>n c. 10 * n + ((of_char c :: nat) - 48)) 0 ds"

text \<open>\<open>parts.join(sep)\<close>.\<close>

fun join :: "string \<Rightarrow> string list \<Rightarrow> string" where
  "join sep [] = []"
| "join sep [x] = x"
| "join sep (x # y # ys) = x @ sep @ join sep (y # ys)"

section \<open>constants.js: model classification\<close>

definition DEFAULT_COOLDOWN_MS :: nat where
  "DEFAULT_COOLDOWN_MS = 10 * 1000"

definition MAX_RETRIES :: nat where
  "MAX_RETRIES = 5"

definition MAX_EMPTY_RESPONSE_RETRIES :: nat where
  "MAX_EMPTY_RESPONSE_RETRIES = 2"

definition MAX_WAIT_BEFORE_ERROR_MS :: nat where
  "MAX_WAIT_BEFORE_ERROR_MS = 120000"

definition ANTIGRAVITY_ENDPOINT_FALLBACKS :: "string list" where
  "ANTIGRAVITY_ENDPOINT_FALLBACKS =
     [''https://daily-cloudcode-pa.googleapis.com'', ''https://cloudcode-pa.googleapis.com'']"

datatype family = Claude | Gemini | Unknown

definition getModelFamily :: "string option \<Rightarrow> family" where
  "getModelFamily modelName =
     (let lower = toLowerCase (orEmpty modelName) in
      if includesStr lower ''claude'' then Claude
      else if includesStr lower ''gemini'' then Gemini
      else Unknown)"

text \<open>
  \<open>lower.match(/gemini-(\d+)/)\<close>: the leftmost position at which \<open>gemini-\<close> is followed
  by at least one digit; the group captures the longest run of digits there.
  \<open>None\<close> is the \<open>null\<close> of a failed match.
\<close>

fun versionMatch :: "string \<Rightarrow> string option" where
  "versionMatch [] = None"
| "versionMatch (c # cs) =
     (if prefix ''gemini-'' (c # cs) \<and> takeWhile isDigit (drop 7 (c # cs)) \<noteq> []
      then Some (takeWhile isDigit (drop 7 (c # cs)))
      else versionMatch cs)"

definition isThinkingModel :: "string option \<Rightarrow> bool" where
  "isThinkingModel modelName =
     (let lower = toLowerCase (orEmpty modelName) in
      if includesStr lower ''claude'' \<and> includesStr lower ''thinking'' then True
      else if includesStr lower ''gemini'' then
        (if includesStr lower ''thinking'' then True
         else (case versionMatch lower of
                 None \<Rightarrow> False
               | Some ds \<Rightarrow> if 3 \<le> parseInt10 ds then True else False))
      else False)"

section \<open>The canonical streaming events\<close>

datatype content_block =
    TextBlock string
  | ThinkingBlock string
  | ToolUseBlock "string option" "string option"

datatype delta =
    TextDelta "string option"
  | InputJsonDelta "string option"
  | ThinkingDelta string
  | SignatureDelta string

text \<open>
  \<open>MessageStart id model input_tokens output_tokens\<close>, \<open>ContentBlockStart index block\<close>,
  \<open>ContentBlockDelta index delta\<close>, \<open>ContentBlockStop index\<close>,
  \<open>MessageDelta stop_reason output_tokens\<close>, \<open>MessageStop\<close>, \<open>ErrorEvent message\<close>.
\<close>

datatype event =
    MessageStart string string nat nat
  | ContentBlockStart nat content_block
  | ContentBlockDelta nat delta
  | ContentBlockStop nat
  | MessageDelta "string option" nat
  | MessageStop
  | ErrorEvent "string option"

section \<open>kiro/event-stream.js: streamAnthropicToKiro, the body of its event loop\<close>

text \<open>
  A frame is what \<open>encodeEventStreamMessage(eventType, payload)\<close> is given: the event
  type is the constructor and the payload its arguments. \<open>ToolUseEvent name toolUseId
  input stop\<close> has \<open>input\<close> and \<open>stop\<close> absent (\<open>None\<close>, \<open>False\<close>) when the payload does
  not carry them.
\<close>

datatype frame =
    AssistantResponseEvent string
  | ToolUseEvent "string option" "string option" "string option" bool
  | MeteringEvent nat
  | ContextUsageEvent nat

text \<open>What the loop body does to the outside: a write to the response, or the 8 ms pause.\<close>

datatype kiro_effect = Write frame | Delay nat

record kiro_state =
  fullContent :: string
  inputTokens :: nat
  outputTokens :: nat
  hasEmittedContent :: bool
  currentToolId :: "string option"
  currentToolName :: "string option"

definition chunkSize :: nat where
  "chunkSize = 8"

text \<open>\<open>s.slice(i, j)\<close> for \<open>0 \<le> i \<le> j\<close>.\<close>

definition slice :: "string \<Rightarrow> nat \<Rightarrow> nat \<Rightarrow> string" where
  "slice s i j = take (j - i) (drop i s)"

text \<open>
  The loop \<open>for (let i = 0; i < partialJson.length; i += chunkSize)\<close>, started at any
  \<open>i\<close>: each round writes one \<open>toolUseEvent\<close> with the chunk and pauses when the whole
  input is longer than 10.
\<close>

function chunkLoop :: "string option \<Rightarrow> string option \<Rightarrow> string \<Rightarrow> nat \<Rightarrow> kiro_effect list" where
  "chunkLoop toolName toolId partialJson i =
     (if i < length partialJson then
        (let chunk = slice partialJson i (i + chunkSize) in
         Write (ToolUseEvent toolName toolId (Some chunk) False)
           # (if length partialJson > 10 then [Delay 8] else [])
           @ chunkLoop toolName toolId partialJson (i + chunkSize))
      else [])"
  by pat_completeness auto
termination
  by (relation "measure (\<lambda>(n, t, p, i). length p - i)") (auto simp: chunkSize_def)

declare chunkLoop.simps [simp del]

text \<open>
  One round of \<open>for await (const event of sendMessageStream(...))\<close>: the effects and
  the new state, or \<open>Inl\<close> the message of the error thrown on an \<open>error\<close> event.
\<close>

fun handleEvent :: "kiro_state \<Rightarrow> event \<Rightarrow> string + (kiro_effect list \<times> kiro_state)" where
  "handleEvent s (MessageStart mid m inTok outTok) = Inr ([], s\<lparr>inputTokens := inTok\<rparr>)"
| "handleEvent s (ContentBlockStart idx (ToolUseBlock tid tname)) =
     Inr ([Write (ToolUseEvent tname tid None False)],
          s\<lparr>currentToolId := tid, currentToolName := tname, hasEmittedContent := True\<rparr>)"
| "handleEvent s (ContentBlockStart idx b) = Inr ([], s)"
| "handleEvent s (ContentBlockDelta idx (TextDelta t)) =
     (let text = orEmpty t in
      if text \<noteq> [] then
        Inr ([Write (AssistantResponseEvent text)],
             s\<lparr>fullContent := fullContent s @ text, hasEmittedContent := True\<rparr>)
      else Inr ([], s))"
| "handleEvent s (ContentBlockDelta idx (InputJsonDelta pj)) =
     (let partialJson = orEmpty pj in
      if partialJson \<noteq> [] \<and> truthyStr (currentToolId s) \<and> truthyStr (currentToolName s) then
        Inr (chunkLoop (currentToolName s) (currentToolId s) partialJson 0,
             s\<lparr>hasEmittedContent := True\<rparr>)
      else Inr ([], s))"
| "handleEvent s (ContentBlockDelta idx d) = Inr ([], s)"
| "handleEvent s (ContentBlockStop idx) =
     (if truthyStr (currentToolId s) \<and> truthyStr (currentToolName s) then
        Inr ([Write (ToolUseEvent (currentToolName s) (currentToolId s) None True)],
             s\<lparr>currentToolId := None, currentToolName := None\<rparr>)
      else Inr ([], s))"
| "handleEvent s (MessageDelta sr outTok) =
     Inr ([], s\<lparr>outputTokens := (if outTok \<noteq> 0 then outTok else outputTokens s)\<rparr>)"
| "handleEvent s MessageStop = Inr ([], s)"
| "handleEvent s (ErrorEvent m) =
     Inl (if truthyStr m then orEmpty m else ''Unknown streaming error'')"

text \<open>The frames written by a list of effects, and the \<open>input\<close> fields they carry.\<close>

fun written :: "kiro_effect list \<Rightarrow> frame list" where
  "written [] = []"
| "written (Write f # es) = f # written es"
| "written (Delay n # es) = written es"

fun inputOf :: "frame \<Rightarrow> string" where
  "inputOf (ToolUseEvent n t (Some c) st) = c"
| "inputOf f = []"

fun isToolInputFrame :: "string option \<Rightarrow> string option \<Rightarrow> frame \<Rightarrow> bool" where
  "isToolInputFrame n t (ToolUseEvent n' t' (Some c) st) = (n' = n \<and> t' = t \<and> \<not> st)"
| "isToolInputFrame n t f = False"

section \<open>Errors, upstream answers and the account manager\<close>

text \<open>
  A JavaScript error object: its message, the properties \<open>is429\<close>, \<open>resetMs\<close> and
  \<open>errorText\<close> that the handlers read from \<open>lastError\<close>, and its class name.
  \<open>newError msg\<close> is \<open>new Error(msg)\<close>, which has none of the three properties.
\<close>

datatype jserror =
  JsError (err_message: string) (err_is429: bool) (err_resetMs: "nat option")
          (err_errorText: "string option") (err_class: string)

definition newError :: "string \<Rightarrow> jserror" where
  "newError msg = JsError msg False None None ''Error''"

text \<open>A value inside a template literal: \<open>undefined\<close> prints as such.\<close>

definition tmpl :: "string option \<Rightarrow> string" where
  "tmpl v = (case v of None \<Rightarrow> ''undefined'' | Some s \<Rightarrow> s)"

text \<open>A number inside a template literal, in decimal.\<close>

function showNat :: "nat \<Rightarrow> string" where
  "showNat n =
     (if n < 10 then [char_of (48 + n)] else showNat (n div 10) @ [char_of (48 + n mod 10)])"
  by pat_completeness auto
termination
  by (relation "measure id") auto

declare showNat.simps [simp del]

text \<open>
  \<open>a || b\<close> and the truthiness of \<open>a\<close> for a number that may be \<open>null\<close>:
  \<open>null\<close>, \<open>undefined\<close> and 0 are falsy.
\<close>

definition truthyNum :: "nat option \<Rightarrow> bool" where
  "truthyNum v = (case v of None \<Rightarrow> False | Some n \<Rightarrow> n \<noteq> 0)"

definition numOr :: "nat option \<Rightarrow> nat \<Rightarrow> nat" where
  "numOr v d = (case v of None \<Rightarrow> d | Some n \<Rightarrow> if n \<noteq> 0 then n else d)"

text \<open>
  The predicates of \<open>errors.js\<close> and \<open>utils/helpers.js\<close> are not part of the sources at
  hand; the handlers take them as parameters.
\<close>

record classifiers =
  isRateLimitError :: "jserror \<Rightarrow> bool"
  isAuthError :: "jserror \<Rightarrow> bool"
  isEmptyResponseError :: "jserror \<Rightarrow> bool"
  isNetworkError :: "jserror \<Rightarrow> bool"

text \<open>
  What one \<open>fetch\<close> gives: it throws, or it resolves to a response. Of a response the
  handlers use the status, the text (\<open>await response.text()\<close>), what
  \<open>parseResetTime(response, text)\<close> returns, what \<open>streamSSEResponse(response, model)\<close>
  yields together with the error it throws at the end (if it throws), what
  \<open>parseThinkingSSEResponse(response, model)\<close> returns or throws, and what
  \<open>convertGoogleToAnthropic(await response.json(), model)\<close> returns or throws.
\<close>

record 'r response =
  status :: nat
  bodyText :: string
  parseResetTime :: "nat option"
  streamSSEResponse :: "event list \<times> jserror option"
  parseThinkingSSEResponse :: "jserror + 'r"
  convertGoogleToAnthropic :: "jserror + 'r"

datatype 'r fetch_result = FetchThrows jserror | Responds "'r response"

definition ok :: "'r response \<Rightarrow> bool" where
  "ok resp = (200 \<le> status resp \<and> status resp \<le> 299)"

datatype account = Account (email: string)

text \<open>
  The account manager (\<open>account-manager/index.js\<close>) is not part of the sources at hand
  either: its state is a type parameter and its methods are the fields of a record.
  A method that may change the state returns the new state.
\<close>

record 's account_manager =
  getAccountCount :: "'s \<Rightarrow> nat"
  clearExpiredLimits :: "'s \<Rightarrow> 's"
  getAvailableAccounts :: "string \<Rightarrow> 's \<Rightarrow> account list"
  isAllRateLimited :: "string \<Rightarrow> 's \<Rightarrow> bool"
  getMinWaitTimeMs :: "string \<Rightarrow> 's \<Rightarrow> nat"
  getCurrentStickyAccount :: "string \<Rightarrow> 's \<Rightarrow> account option \<times> 's"
  pickNext :: "string \<Rightarrow> 's \<Rightarrow> account option \<times> 's"
  markRateLimited :: "string \<Rightarrow> nat option \<Rightarrow> string \<Rightarrow> 's \<Rightarrow> 's"
  clearTokenCache :: "string \<Rightarrow> 's \<Rightarrow> 's"
  clearProjectCache :: "string \<Rightarrow> 's \<Rightarrow> 's"
  getTokenForAccount :: "account \<Rightarrow> 's \<Rightarrow> (jserror + string) \<times> 's"
  getProjectForAccount :: "account \<Rightarrow> string \<Rightarrow> 's \<Rightarrow> (jserror + string) \<times> 's"

text \<open>
  Everything a handler is run against: the account manager, the classifiers, the
  upstream (the answer to the n-th \<open>fetch\<close> of the request, counted from 0),
  \<open>getFallbackModel\<close> of \<open>fallback-config.js\<close>, what \<open>sleep(ms)\<close> does to the state
  behind the account manager (its clock), \<open>formatDuration\<close>, the ISO rendering of
  \<open>Date.now() + ms\<close>, and the output of \<open>crypto.randomBytes(16).toString('hex')\<close>.
\<close>

record ('s, 'r) env =
  manager :: "'s account_manager"
  classify :: classifiers
  upstream :: "nat \<Rightarrow> 'r fetch_result"
  getFallbackModel :: "string \<Rightarrow> string option"
  sleep :: "nat \<Rightarrow> 's \<Rightarrow> 's"
  formatDuration :: "nat \<Rightarrow> string"
  isoAfter :: "'s \<Rightarrow> nat \<Rightarrow> string"
  randomHex :: string

text \<open>
  What a handler does to the outside, in order. \<open>Enter model fallbackEnabled\<close> marks an
  invocation of \<open>sendMessage\<close> or \<open>sendMessageStream\<close>, \<open>Attempt n\<close> the start of a round
  of the attempt loop; \<open>Fetch url token\<close> is an upstream call and \<open>Yield e\<close> an event
  handed to the consumer of the generator.
\<close>

datatype action =
    Enter string bool
  | Attempt nat
  | Fetch string string
  | Sleep nat
  | Yield event
  | ClearExpiredLimits
  | MarkRateLimited string "nat option" string
  | ClearTokenCache string
  | ClearProjectCache string
  | PickNext string

record 's world =
  am :: 's
  calls :: nat
  trace :: "action list"

definition logA :: "action \<Rightarrow> 's world \<Rightarrow> 's world" where
  "logA a w = w\<lparr>trace := trace w @ [a]\<rparr>"

definition fetch :: "('s, 'r) env \<Rightarrow> string \<Rightarrow> string \<Rightarrow> 's world \<Rightarrow> 'r fetch_result \<times> 's world" where
  "fetch env url token w =
     (upstream env (calls w), logA (Fetch url token) (w\<lparr>calls := calls w + 1\<rparr>))"

definition sleepW :: "('s, 'r) env \<Rightarrow> nat \<Rightarrow> 's world \<Rightarrow> 's world" where
  "sleepW env ms w = logA (Sleep ms) (w\<lparr>am := sleep env ms (am w)\<rparr>)"

definition clearExpiredLimitsW :: "('s, 'r) env \<Rightarrow> 's world \<Rightarrow> 's world" where
  "clearExpiredLimitsW env w =
     logA ClearExpiredLimits (w\<lparr>am := clearExpiredLimits (manager env) (am w)\<rparr>)"

definition markRateLimitedW ::
  "('s, 'r) env \<Rightarrow> string \<Rightarrow> nat option \<Rightarrow> string \<Rightarrow> 's world \<Rightarrow> 's world" where
  "markRateLimitedW env em ms model w =
     logA (MarkRateLimited em ms model) (w\<lparr>am := markRateLimited (manager env) em ms model (am w)\<rparr>)"

definition clearTokenCacheW :: "('s, 'r) env \<Rightarrow> string \<Rightarrow> 's world \<Rightarrow> 's world" where
  "clearTokenCacheW env em w =
     logA (ClearTokenCache em) (w\<lparr>am := clearTokenCache (manager env) em (am w)\<rparr>)"

definition clearProjectCacheW :: "('s, 'r) env \<Rightarrow> string \<Rightarrow> 's world \<Rightarrow> 's world" where
  "clearProjectCacheW env em w =
     logA (ClearProjectCache em) (w\<lparr>am := clearProjectCache (manager env) em (am w)\<rparr>)"

definition pickNextW :: "('s, 'r) env \<Rightarrow> string \<Rightarrow> 's world \<Rightarrow> account option \<times> 's world" where
  "pickNextW env model w =
     (case pickNext (manager env) model (am w) of
        (a, s) \<Rightarrow> (a, logA (PickNext model) (w\<lparr>am := s\<rparr>)))"

definition getCurrentStickyAccountW ::
  "('s, 'r) env \<Rightarrow> string \<Rightarrow> 's world \<Rightarrow> account option \<times> 's world" where
  "getCurrentStickyAccountW env model w =
     (case getCurrentStickyAccount (manager env) model (am w) of (a, s) \<Rightarrow> (a, w\<lparr>am := s\<rparr>))"

definition getTokenForAccountW ::
  "('s, 'r) env \<Rightarrow> account \<Rightarrow> 's world \<Rightarrow> (jserror + string) \<times> 's world" where
  "getTokenForAccountW env acc w =
     (case getTokenForAccount (manager env) acc (am w) of (t, s) \<Rightarrow> (t, w\<lparr>am := s\<rparr>))"

definition getProjectForAccountW ::
  "('s, 'r) env \<Rightarrow> account \<Rightarrow> string \<Rightarrow> 's world \<Rightarrow> (jserror + string) \<times> 's world" where
  "getProjectForAccountW env acc token w =
     (case getProjectForAccount (manager env) acc token (am w) of (p, s) \<Rightarrow> (p, w\<lparr>am := s\<rparr>))"

text \<open>\<open>yield* g\<close> for a generator that yields the events \<open>evs\<close>.\<close>

definition yieldAll :: "event list \<Rightarrow> 's world \<Rightarrow> 's world" where
  "yieldAll evs w = w\<lparr>trace := trace w @ map Yield evs\<rparr>"

text \<open>
  How a block of a handler ends: it returns from the handler, it throws, or control
  falls through to the next round of the enclosing loop.
\<close>

datatype 'a step = Return 'a | Throw jserror | Next

text \<open>
  How a round of the attempt loop ends: the handler returns, it throws, the loop
  continues, or the round has found every account limited for longer than
  \<open>MAX_WAIT_BEFORE_ERROR_MS\<close> (with the wait and the reset instant it computed).
\<close>

datatype 'a verdict = AReturn 'a | AThrow jserror | AContinue | AExhausted nat string

datatype 'a outcome = Returned 'a | Thrown jserror

section \<open>What the two handlers share\<close>

text \<open>\<open>resetMs && resetMs > d\<close>.\<close>

definition exceeds :: "nat option \<Rightarrow> nat \<Rightarrow> bool" where
  "exceeds v d = (truthyNum v \<and> (case v of None \<Rightarrow> False | Some n \<Rightarrow> n > d))"

text \<open>
  Lines 53 to 84 of both handlers: no account is available for the model. The branch
  that tries the fallback model or throws \<open>RESOURCE_EXHAUSTED\<close> is \<open>AExhausted\<close>; the
  attempt loop below carries it out, since it calls the handler itself.
\<close>

definition noAccounts :: "('s, 'r) env \<Rightarrow> string \<Rightarrow> 's world \<Rightarrow> 'a verdict \<times> 's world" where
  "noAccounts env model w =
     (if isAllRateLimited (manager env) model (am w) then
        (let minWaitMs = getMinWaitTimeMs (manager env) model (am w);
             resetTime = isoAfter env (am w) minWaitMs
         in if minWaitMs > MAX_WAIT_BEFORE_ERROR_MS then (AExhausted minWaitMs resetTime, w)
            else (AContinue, clearExpiredLimitsW env (sleepW env (minWaitMs + 500) w)))
      else (AThrow (newError ''No accounts available''), w))"

definition resourceExhausted :: "('s, 'r) env \<Rightarrow> string \<Rightarrow> nat \<Rightarrow> string \<Rightarrow> jserror" where
  "resourceExhausted env model minWaitMs resetTime =
     newError (''RESOURCE_EXHAUSTED: Rate limited on '' @ model @ ''. Quota will reset after ''
               @ formatDuration env minWaitMs @ ''. Next available: '' @ resetTime)"

text \<open>Lines 86 to 90: the sticky account, or the next one.\<close>

definition chooseAccount :: "('s, 'r) env \<Rightarrow> string \<Rightarrow> 's world \<Rightarrow> account option \<times> 's world" where
  "chooseAccount env model w =
     (case getCurrentStickyAccountW env model w of
        (Some acc, w1) \<Rightarrow> (Some acc, w1)
      | (None, w1) \<Rightarrow> pickNextW env model w1)"

text \<open>The \<open>catch (error)\<close> of the attempt, the same in both handlers.\<close>

definition attemptCatch :: "('s, 'r) env \<Rightarrow> string \<Rightarrow> jserror \<Rightarrow> 's world \<Rightarrow> 'a verdict \<times> 's world" where
  "attemptCatch env model e w =
     (if isRateLimitError (classify env) e then (AContinue, w)
      else if isAuthError (classify env) e then (AContinue, w)
      else if includesStr (err_message e) ''API error 5'' \<or> includesStr (err_message e) ''500''
              \<or> includesStr (err_message e) ''503''
        then (AContinue, snd (pickNextW env model w))
      else if isNetworkError (classify env) e
        then (AContinue, snd (pickNextW env model (sleepW env 1000 w)))
      else (AThrow e, w))"

text \<open>After the endpoint loop: \<open>if (lastError) { ... }\<close>.\<close>

definition afterEndpoints ::
  "('s, 'r) env \<Rightarrow> string \<Rightarrow> account \<Rightarrow> jserror option \<Rightarrow> 's world \<Rightarrow> 'a step \<times> 's world" where
  "afterEndpoints env model acc lastError w =
     (case lastError of
        None \<Rightarrow> (Next, w)
      | Some e \<Rightarrow>
          if err_is429 e
          then (Throw (newError (''Rate limited: '' @ tmpl (err_errorText e))),
                markRateLimitedW env (email acc) (err_resetMs e) model w)
          else (Throw e, w))"

section \<open>cloudcode/message-handler.js: sendMessage\<close>

text \<open>
  Lines 191 to 199 (and 158 to 163 for the response to the re-issue): a thinking model
  has its response parsed as server-sent events, any other model as one JSON document.
\<close>

definition processResponse :: "bool \<Rightarrow> 'r response \<Rightarrow> 'r step" where
  "processResponse isThinking resp =
     (if isThinking then
        (case parseThinkingSSEResponse resp of Inl e \<Rightarrow> Throw e | Inr d \<Rightarrow> Return d)
      else
        (case convertGoogleToAnthropic resp of Inl e \<Rightarrow> Throw e | Inr d \<Rightarrow> Return d))"

text \<open>
  Lines 132 to 178, the answer to a 429. The result carries the new value of
  \<open>retriedOnce\<close>.
\<close>

definition answer429 ::
  "('s, 'r) env \<Rightarrow> bool \<Rightarrow> string \<Rightarrow> account \<Rightarrow> string \<Rightarrow> string \<Rightarrow> 'r response \<Rightarrow> bool
   \<Rightarrow> 's world \<Rightarrow> ('r step \<times> bool) \<times> 's world" where
  "answer429 env isThinking model acc url token resp retriedOnce w =
     (let resetMs = parseResetTime resp in
      if exceeds resetMs DEFAULT_COOLDOWN_MS then
        ((Throw (newError (''QUOTA_EXHAUSTED: '' @ bodyText resp)), retriedOnce),
         markRateLimitedW env (email acc) resetMs model w)
      else
        (let waitMs = numOr resetMs DEFAULT_COOLDOWN_MS in
         if \<not> retriedOnce then
           (case fetch env url token (sleepW env waitMs w) of
              (FetchThrows e, w1) \<Rightarrow> ((Throw e, True), w1)
            | (Responds retryResponse, w1) \<Rightarrow>
                if ok retryResponse then ((processResponse isThinking retryResponse, True), w1)
                else
                  ((Throw (newError (''RATE_LIMITED_AFTER_RETRY: '' @ bodyText retryResponse)), True),
                   markRateLimitedW env (email acc)
                     (Some (numOr (parseResetTime retryResponse) waitMs)) model w1))
         else
           ((Throw (newError (''RATE_LIMITED: '' @ bodyText resp)), retriedOnce),
            markRateLimitedW env (email acc) (Some waitMs) model w)))"

text \<open>
  Lines 110 to 199, the \<open>try\<close> of one endpoint. The result carries the new values of
  \<open>lastError\<close> and \<open>retriedOnce\<close>.
\<close>

definition endpointTry ::
  "('s, 'r) env \<Rightarrow> bool \<Rightarrow> string \<Rightarrow> account \<Rightarrow> string \<Rightarrow> string \<Rightarrow> jserror option \<Rightarrow> bool \<Rightarrow> 's world
   \<Rightarrow> ('r step \<times> jserror option \<times> bool) \<times> 's world" where
  "endpointTry env isThinking model acc token endpoint lastError retriedOnce w =
     (let url = endpoint @ (if isThinking then ''/v1internal:streamGenerateContent?alt=sse''
                            else ''/v1internal:generateContent'')
      in case fetch env url token w of
           (FetchThrows e, w1) \<Rightarrow> ((Throw e, lastError, retriedOnce), w1)
         | (Responds resp, w1) \<Rightarrow>
             if \<not> ok resp then
               (if status resp = 401 then
                  ((Next, lastError, retriedOnce),
                   clearProjectCacheW env (email acc) (clearTokenCacheW env (email acc) w1))
                else if status resp = 429 then
                  (case answer429 env isThinking model acc url token resp retriedOnce w1 of
                     ((st, ro), w2) \<Rightarrow> ((st, lastError, ro), w2))
                else if status resp \<ge> 400 then
                  ((Next,
                    Some (newError (''API error '' @ showNat (status resp) @ '': '' @ bodyText resp)),
                    retriedOnce),
                   (if status resp \<ge> 500 then sleepW env 1000 w1 else w1))
                else ((processResponse isThinking resp, lastError, retriedOnce), w1))
             else ((processResponse isThinking resp, lastError, retriedOnce), w1))"

text \<open>
  Lines 108 to 218: the loop over the endpoints with its \<open>catch (endpointError)\<close>, then
  the check of \<open>lastError\<close>.
\<close>

fun endpointLoop ::
  "('s, 'r) env \<Rightarrow> bool \<Rightarrow> string \<Rightarrow> account \<Rightarrow> string \<Rightarrow> string list \<Rightarrow> jserror option \<Rightarrow> bool
   \<Rightarrow> 's world \<Rightarrow> 'r step \<times> 's world" where
  "endpointLoop env isThinking model acc token [] lastError retriedOnce w =
     afterEndpoints env model acc lastError w"
| "endpointLoop env isThinking model acc token (endpoint # rest) lastError retriedOnce w =
     (case endpointTry env isThinking model acc token endpoint lastError retriedOnce w of
        ((Return r, le, ro), w1) \<Rightarrow> (Return r, w1)
      | ((Next, le, ro), w1) \<Rightarrow> endpointLoop env isThinking model acc token rest le ro w1
      | ((Throw e, le, ro), w1) \<Rightarrow>
          if isRateLimitError (classify env) e then (Throw e, w1)
          else endpointLoop env isThinking model acc token rest (Some e) ro w1)"

text \<open>Lines 96 to 218, the \<open>try\<close> of the attempt.\<close>

definition attemptTry ::
  "('s, 'r) env \<Rightarrow> bool \<Rightarrow> string \<Rightarrow> account \<Rightarrow> 's world \<Rightarrow> 'r step \<times> 's world" where
  "attemptTry env isThinking model acc w =
     (case getTokenForAccountW env acc w of
        (Inl e, w1) \<Rightarrow> (Throw e, w1)
      | (Inr token, w1) \<Rightarrow>
          (case getProjectForAccountW env acc token w1 of
             (Inl e, w2) \<Rightarrow> (Throw e, w2)
           | (Inr project, w2) \<Rightarrow>
               endpointLoop env isThinking model acc token ANTIGRAVITY_ENDPOINT_FALLBACKS
                 None False w2))"

text \<open>Lines 46 to 246, one round of the attempt loop.\<close>

definition attemptBody :: "('s, 'r) env \<Rightarrow> string \<Rightarrow> 's world \<Rightarrow> 'r verdict \<times> 's world" where
  "attemptBody env model w =
     (let w1 = clearExpiredLimitsW env w in
      if getAvailableAccounts (manager env) model (am w1) = [] then noAccounts env model w1
      else
        (case chooseAccount env model w1 of
           (None, w2) \<Rightarrow> (AContinue, w2)
         | (Some acc, w2) \<Rightarrow>
             (case attemptTry env (isThinkingModel (Some model)) model acc w2 of
                (Return r, w3) \<Rightarrow> (AReturn r, w3)
              | (Next, w3) \<Rightarrow> (AContinue, w3)
              | (Throw e, w3) \<Rightarrow> attemptCatch env model e w3)))"

definition maxAttemptsOf :: "('s, 'r) env \<Rightarrow> 's world \<Rightarrow> nat" where
  "maxAttemptsOf env w = max MAX_RETRIES (getAccountCount (manager env) (am w) + 1)"

text \<open>
  The attempt loop of \<open>sendMessage(request, accountManager, fallbackEnabled)\<close> from round
  \<open>attempt\<close> on, and what follows it. The request enters through its model only. The
  two calls \<open>sendMessage(fallbackRequest, accountManager, false)\<close> are the two
  recursive calls: they start the loop of the fallback model at round 0 with its own
  \<open>maxAttempts\<close>.
\<close>

function attemptLoop ::
  "('s, 'r) env \<Rightarrow> string \<Rightarrow> bool \<Rightarrow> nat \<Rightarrow> nat \<Rightarrow> 's world \<Rightarrow> 'r outcome \<times> 's world" where
  "attemptLoop env model fallbackEnabled maxAttempts attempt w =
     (if attempt < maxAttempts then
        (case attemptBody env model (logA (Attempt attempt) w) of
           (AReturn r, w1) \<Rightarrow> (Returned r, w1)
         | (AThrow e, w1) \<Rightarrow> (Thrown e, w1)
         | (AContinue, w1) \<Rightarrow> attemptLoop env model fallbackEnabled maxAttempts (attempt + 1) w1
         | (AExhausted minWaitMs resetTime, w1) \<Rightarrow>
             (if fallbackEnabled \<and> truthyStr (getFallbackModel env model) then
                attemptLoop env (orEmpty (getFallbackModel env model)) False (maxAttemptsOf env w1) 0
                  (logA (Enter (orEmpty (getFallbackModel env model)) False) w1)
              else (Thrown (resourceExhausted env model minWaitMs resetTime), w1)))
      else
        (if fallbackEnabled \<and> truthyStr (getFallbackModel env model) then
           attemptLoop env (orEmpty (getFallbackModel env model)) False (maxAttemptsOf env w) 0
             (logA (Enter (orEmpty (getFallbackModel env model)) False) w)
         else (Thrown (newError ''Max retries exceeded''), w)))"
  by pat_completeness auto
termination
  by (relation "measures [\<lambda>(env, model, fb, maxAttempts, attempt, w). if fb then 1 else 0,
                          \<lambda>(env, model, fb, maxAttempts, attempt, w). maxAttempts - attempt]")
     auto

declare attemptLoop.simps [simp del]

definition sendMessage :: "('s, 'r) env \<Rightarrow> string \<Rightarrow> bool \<Rightarrow> 's world \<Rightarrow> 'r outcome \<times> 's world" where
  "sendMessage env model fallbackEnabled w =
     attemptLoop env model fallbackEnabled (maxAttemptsOf env w) 0 (logA (Enter model fallbackEnabled) w)"

section \<open>cloudcode/streaming-handler.js: sendMessageStream\<close>

text \<open>\<open>emitEmptyResponseFallback(model)\<close>; \<open>hex\<close> is the random part of the message id.\<close>

definition emitEmptyResponseFallback :: "string \<Rightarrow> string \<Rightarrow> event list" where
  "emitEmptyResponseFallback hex model =
     [MessageStart (''msg_'' @ hex) model 0 0,
      ContentBlockStart 0 (TextBlock []),
      ContentBlockDelta 0 (TextDelta (Some ''[No response after retries - please try again]'')),
      ContentBlockStop 0,
      MessageDelta (Some ''end_turn'') 0,
      MessageStop]"

text \<open>
  \<open>yield* streamSSEResponse(response, model); return;\<close>: the events reach the consumer
  one by one; an error of the adapter is thrown after the events it yielded before.
\<close>

definition streamResponse :: "'r response \<Rightarrow> 's world \<Rightarrow> unit step \<times> 's world" where
  "streamResponse resp w =
     (case streamSSEResponse resp of
        (evs, None) \<Rightarrow> (Return (), yieldAll evs w)
      | (evs, Some e) \<Rightarrow> (Throw e, yieldAll evs w))"

text \<open>Lines 129 to 172, the answer to a 429.\<close>

definition answer429Stream ::
  "('s, 'r) env \<Rightarrow> string \<Rightarrow> account \<Rightarrow> string \<Rightarrow> string \<Rightarrow> 'r response \<Rightarrow> bool \<Rightarrow> 's world
   \<Rightarrow> (unit step \<times> bool) \<times> 's world" where
  "answer429Stream env model acc url token resp retriedOnce w =
     (let resetMs = parseResetTime resp in
      if exceeds resetMs DEFAULT_COOLDOWN_MS then
        ((Throw (newError (''QUOTA_EXHAUSTED: '' @ bodyText resp)), retriedOnce),
         markRateLimitedW env (email acc) resetMs model w)
      else
        (let waitMs = numOr resetMs DEFAULT_COOLDOWN_MS in
         if \<not> retriedOnce then
           (case fetch env url token (sleepW env waitMs w) of
              (FetchThrows e, w1) \<Rightarrow> ((Throw e, True), w1)
            | (Responds retryResponse, w1) \<Rightarrow>
                if ok retryResponse then
                  (case streamResponse retryResponse w1 of (st, w2) \<Rightarrow> ((st, True), w2))
                else
                  ((Throw (newError (''RATE_LIMITED_AFTER_RETRY: '' @ bodyText retryResponse)), True),
                   markRateLimitedW env (email acc)
                     (Some (numOr (parseResetTime retryResponse) waitMs)) model w1))
         else
           ((Throw (newError (''RATE_LIMITED: '' @ bodyText resp)), retriedOnce),
            markRateLimitedW env (email acc) (Some waitMs) model w)))"

text \<open>
  Lines 186 to 253: the loop \<open>for (let emptyRetries = 0; emptyRetries <=
  MAX_EMPTY_RESPONSE_RETRIES; emptyRetries++)\<close> from round \<open>emptyRetries\<close> on, with
  \<open>currentResponse\<close> as it stands at the start of the round.
\<close>

function emptyRetryLoop ::
  "('s, 'r) env \<Rightarrow> string \<Rightarrow> account \<Rightarrow> string \<Rightarrow> string \<Rightarrow> 'r response \<Rightarrow> nat \<Rightarrow> 's world
   \<Rightarrow> unit step \<times> 's world" where
  "emptyRetryLoop env model acc url token currentResponse emptyRetries w =
     (if emptyRetries \<le> MAX_EMPTY_RESPONSE_RETRIES then
        (case streamResponse currentResponse w of
           (Return u, w1) \<Rightarrow> (Return u, w1)
         | (Next, w1) \<Rightarrow> (Next, w1)
         | (Throw streamError, w1) \<Rightarrow>
             if \<not> isEmptyResponseError (classify env) streamError then (Throw streamError, w1)
             else if emptyRetries \<ge> MAX_EMPTY_RESPONSE_RETRIES then
               (Return (), yieldAll (emitEmptyResponseFallback (randomHex env) model) w1)
             else
               (case fetch env url token (sleepW env (500 * 2 ^ emptyRetries) w1) of
                  (FetchThrows e, w2) \<Rightarrow> (Throw e, w2)
                | (Responds retry1, w2) \<Rightarrow>
                    if \<not> ok retry1 then
                      (if status retry1 = 429 then
                         (Throw (newError (''429 RESOURCE_EXHAUSTED during retry: '' @ bodyText retry1)),
                          markRateLimitedW env (email acc) (parseResetTime retry1) model w2)
                       else if status retry1 = 401 then
                         (Throw (newError (''401 AUTH_INVALID during retry: '' @ bodyText retry1)),
                          clearProjectCacheW env (email acc) (clearTokenCacheW env (email acc) w2))
                       else if status retry1 \<ge> 500 then
                         (case fetch env url token (sleepW env 1000 w2) of
                            (FetchThrows e, w3) \<Rightarrow> (Throw e, w3)
                          | (Responds retry2, w3) \<Rightarrow>
                              if ok retry2 then
                                emptyRetryLoop env model acc url token retry2 (emptyRetries + 1) w3
                              else
                                (Throw (newError (''Empty response retry failed: ''
                                          @ showNat (status retry2) @ '' - '' @ bodyText retry1)),
                                 w3))
                       else
                         (Throw (newError (''Empty response retry failed: ''
                                   @ showNat (status retry1) @ '' - '' @ bodyText retry1)),
                          w2))
                    else emptyRetryLoop env model acc url token retry1 (emptyRetries + 1) w2))
      else (Next, w))"
  by pat_completeness auto
termination
  by (relation "measure (\<lambda>(env, model, acc, url, token, resp, emptyRetries, w).
                           Suc MAX_EMPTY_RESPONSE_RETRIES - emptyRetries)")
     auto

declare emptyRetryLoop.simps [simp del]

text \<open>Lines 109 to 253, the \<open>try\<close> of one endpoint.\<close>

definition endpointTryStream ::
  "('s, 'r) env \<Rightarrow> string \<Rightarrow> account \<Rightarrow> string \<Rightarrow> string \<Rightarrow> jserror option \<Rightarrow> bool \<Rightarrow> 's world
   \<Rightarrow> (unit step \<times> jserror option \<times> bool) \<times> 's world" where
  "endpointTryStream env model acc token endpoint lastError retriedOnce w =
     (let url = endpoint @ ''/v1internal:streamGenerateContent?alt=sse''
      in case fetch env url token w of
           (FetchThrows e, w1) \<Rightarrow> ((Throw e, lastError, retriedOnce), w1)
         | (Responds resp, w1) \<Rightarrow>
             if \<not> ok resp then
               (if status resp = 401 then
                  ((Next, lastError, retriedOnce),
                   clearProjectCacheW env (email acc) (clearTokenCacheW env (email acc) w1))
                else if status resp = 429 then
                  (case answer429Stream env model acc url token resp retriedOnce w1 of
                     ((st, ro), w2) \<Rightarrow> ((st, lastError, ro), w2))
                else
                  ((Next,
                    Some (newError (''API error '' @ showNat (status resp) @ '': '' @ bodyText resp)),
                    retriedOnce),
                   (if status resp \<ge> 500 then sleepW env 1000 w1 else w1)))
             else
               (case emptyRetryLoop env model acc url token resp 0 w1 of
                  (st, w2) \<Rightarrow> ((st, lastError, retriedOnce), w2)))"

text \<open>Lines 108 to 275: the loop over the endpoints with its \<open>catch (endpointError)\<close>.\<close>

fun endpointLoopStream ::
  "('s, 'r) env \<Rightarrow> string \<Rightarrow> account \<Rightarrow> string \<Rightarrow> string list \<Rightarrow> jserror option \<Rightarrow> bool
   \<Rightarrow> 's world \<Rightarrow> unit step \<times> 's world" where
  "endpointLoopStream env model acc token [] lastError retriedOnce w =
     afterEndpoints env model acc lastError w"
| "endpointLoopStream env model acc token (endpoint # rest) lastError retriedOnce w =
     (case endpointTryStream env model acc token endpoint lastError retriedOnce w of
        ((Return u, le, ro), w1) \<Rightarrow> (Return u, w1)
      | ((Next, le, ro), w1) \<Rightarrow> endpointLoopStream env model acc token rest le ro w1
      | ((Throw e, le, ro), w1) \<Rightarrow>
          if isRateLimitError (classify env) e then (Throw e, w1)
          else if isEmptyResponseError (classify env) e then (Throw e, w1)
          else endpointLoopStream env model acc token rest (Some e) ro w1)"

definition attemptTryStream ::
  "('s, 'r) env \<Rightarrow> string \<Rightarrow> account \<Rightarrow> 's world \<Rightarrow> unit step \<times> 's world" where
  "attemptTryStream env model acc w =
     (case getTokenForAccountW env acc w of
        (Inl e, w1) \<Rightarrow> (Throw e, w1)
      | (Inr token, w1) \<Rightarrow>
          (case getProjectForAccountW env acc token w1 of
             (Inl e, w2) \<Rightarrow> (Throw e, w2)
           | (Inr project, w2) \<Rightarrow>
               endpointLoopStream env model acc token ANTIGRAVITY_ENDPOINT_FALLBACKS None False w2))"

definition attemptBodyStream :: "('s, 'r) env \<Rightarrow> string \<Rightarrow> 's world \<Rightarrow> unit verdict \<times> 's world" where
  "attemptBodyStream env model w =
     (let w1 = clearExpiredLimitsW env w in
      if getAvailableAccounts (manager env) model (am w1) = [] then noAccounts env model w1
      else
        (case chooseAccount env model w1 of
           (None, w2) \<Rightarrow> (AContinue, w2)
         | (Some acc, w2) \<Rightarrow>
             (case attemptTryStream env model acc w2 of
                (Return u, w3) \<Rightarrow> (AReturn u, w3)
              | (Next, w3) \<Rightarrow> (AContinue, w3)
              | (Throw e, w3) \<Rightarrow> attemptCatch env model e w3)))"

text \<open>
  The attempt loop of \<open>sendMessageStream(request, accountManager, fallbackEnabled)\<close>
  from round \<open>attempt\<close> on, and what follows it; \<open>yield* sendMessageStream(fallbackRequest,
  accountManager, false); return;\<close> are the two recursive calls.
\<close>

function attemptLoopStream ::
  "('s, 'r) env \<Rightarrow> string \<Rightarrow> bool \<Rightarrow> nat \<Rightarrow> nat \<Rightarrow> 's world \<Rightarrow> unit outcome \<times> 's world" where
  "attemptLoopStream env model fallbackEnabled maxAttempts attempt w =
     (if attempt < maxAttempts then
        (case attemptBodyStream env model (logA (Attempt attempt) w) of
           (AReturn u, w1) \<Rightarrow> (Returned u, w1)
         | (AThrow e, w1) \<Rightarrow> (Thrown e, w1)
         | (AContinue, w1) \<Rightarrow>
             attemptLoopStream env model fallbackEnabled maxAttempts (attempt + 1) w1
         | (AExhausted minWaitMs resetTime, w1) \<Rightarrow>
             (if fallbackEnabled \<and> truthyStr (getFallbackModel env model) then
                attemptLoopStream env (orEmpty (getFallbackModel env model)) False
                  (maxAttemptsOf env w1) 0
                  (logA (Enter (orEmpty (getFallbackModel env model)) False) w1)
              else (Thrown (resourceExhausted env model minWaitMs resetTime), w1)))
      else
        (if fallbackEnabled \<and> truthyStr (getFallbackModel env model) then
           attemptLoopStream env (orEmpty (getFallbackModel env model)) False (maxAttemptsOf env w) 0
             (logA (Enter (orEmpty (getFallbackModel env model)) False) w)
         else (Thrown (newError ''Max retries exceeded''), w)))"
  by pat_completeness auto
termination
  by (relation "measures [\<lambda>(env, model, fb, maxAttempts, attempt, w). if fb then 1 else 0,
                          \<lambda>(env, model, fb, maxAttempts, attempt, w). maxAttempts - attempt]")
     auto

declare attemptLoopStream.simps [simp del]

definition sendMessageStream ::
  "('s, 'r) env \<Rightarrow> string \<Rightarrow> bool \<Rightarrow> 's world \<Rightarrow> unit outcome \<times> 's world" where
  "sendMessageStream env model fallbackEnabled w =
     attemptLoopStream env model fallbackEnabled (maxAttemptsOf env w) 0
       (logA (Enter model fallbackEnabled) w)"

section \<open>cloudcode/request-builder.js: buildCloudCodeRequest\<close>

text \<open>The constant of \<open>constants.js\<close>, line by line.\<close>

definition ANTIGRAVITY_SYSTEM_INSTRUCTION :: string where
  "ANTIGRAVITY_SYSTEM_INSTRUCTION = join [CHR 0x0A]
     [''<identity>'',
      ''You are Antigravity, a powerful agentic AI coding assistant designed by the Google Deepmind team working on Advanced Agentic Coding.'',
      ''You are pair programming with a USER to solve their coding task. The task may require creating a new codebase, modifying or debugging an existing codebase, or simply answering a question.'',
      ''The USER will send you requests, which you must always prioritize addressing. Along with each USER request, we will attach additional metadata about their current state, such as what files they have open and where their cursor is.'',
      ''This information may or may not be relevant to the coding task, it is up for you to decide.'',
      ''</identity>'',
      [],
      ''<tool_calling>'',
      ''Call tools as you normally would. The following list provides additional guidance to help you avoid errors:'',
      '' - **Absolute paths only**. When using tools that accept file path arguments, ALWAYS use the absolute file path.'',
      ''</tool_calling>'',
      [],
      ''<web_application_development>'',
      ''## Technology Stack,'',
      ''Your web applications should be built using the following technologies:,'',
      ''1. **Core**: Use HTML for structure and Javascript for logic.'',
      ''2. **Styling (CSS)**: Use Vanilla CSS for maximum flexibility and control. Avoid using TailwindCSS unless the USER explicitly requests it; in this case, first confirm which TailwindCSS version to use.'',
      ''3. **Web App**: If the USER specifies that they want a more complex web app, use a framework like Next.js or Vite. Only do this if the USER explicitly requests a web app.'',
      ''4. **New Project Creation**: If you need to use a framework for a new app, use `npx` with the appropriate script, but there are some rules to follow:,'',
      '' - Use `npx -y` to automatically install the script and its dependencies'',
      '' - You MUST run the command with `--help` flag to see all available options first, '',
      '' - Initialize the app in the current directory with `./` (example: `npx -y create-vite-app@latest ./`),'',
      '' - You should run in non-interactive mode so that the user doesn'' @ [CHR 0x27] @ ''t need to input anything,'',
      ''5. **Running Locally**: When running locally, use `npm run dev` or equivalent dev server. Only build the production bundle if the USER explicitly requests it or you are validating the code for correctness.'',
      [],
      ''# Design Aesthetics,'',
      ''1. **Use Rich Aesthetics**: The USER should be wowed at first glance by the design. Use best practices in modern web design (e.g. vibrant colors, dark modes, glassmorphism, and dynamic animations) to create a stunning first impression. Failure to do this is UNACCEPTABLE.'',
      ''2. **Prioritize Visual Excellence**: Implement designs that will WOW the user and feel extremely premium:'',
      [CHR 0x09, CHR 0x09] @ ''- Avoid generic colors (plain red, blue, green). Use curated, harmonious color palettes (e.g., HSL tailored colors, sleek dark modes).'',
      '' - Using modern typography (e.g., from Google Fonts like Inter, Roboto, or Outfit) instead of browser defaults.'',
      [CHR 0x09, CHR 0x09] @ ''- Use smooth gradients,'',
      [CHR 0x09, CHR 0x09] @ ''- Add subtle micro-animations for enhanced user experience,'',
      ''3. **Use a Dynamic Design**: An interface that feels responsive and alive encourages interaction. Achieve this with hover effects and interactive elements. Micro-animations, in particular, are highly effective for improving user engagement.'',
      ''4. **Premium Designs**. Make a design that feels premium and state of the art. Avoid creating simple minimum viable products.'',
      ''4. **Don'' @ [CHR 0x27] @ ''t use placeholders**. If you need an image, use your generate_image tool to create a working demonstration.,'',
      [],
      ''## Implementation Workflow,'',
      ''Follow this systematic approach when building web applications:,'',
      ''1. **Plan and Understand**:,'',
      [CHR 0x09, CHR 0x09] @ ''- Fully understand the user'' @ [CHR 0x27] @ ''s requirements,'',
      [CHR 0x09, CHR 0x09] @ ''- Draw inspiration from modern, beautiful, and dynamic web designs,'',
      [CHR 0x09, CHR 0x09] @ ''- Outline the features needed for the initial version,'',
      ''2. **Build the Foundation**:,'',
      [CHR 0x09, CHR 0x09] @ ''- Start by creating/modifying `index.css`,'',
      [CHR 0x09, CHR 0x09] @ ''- Implement the core design system with all tokens and utilities,'',
      ''3. **Create Components**:,'',
      [CHR 0x09, CHR 0x09] @ ''- Build necessary components using your design system,'',
      [CHR 0x09, CHR 0x09] @ ''- Ensure all components use predefined styles, not ad-hoc utilities,'',
      [CHR 0x09, CHR 0x09] @ ''- Keep components focused and reusable,'',
      ''4. **Assemble Pages**:,'',
      [CHR 0x09, CHR 0x09] @ ''- Update the main application to incorporate your design and components,'',
      [CHR 0x09, CHR 0x09] @ ''- Ensure proper routing and navigation,'',
      [CHR 0x09, CHR 0x09] @ ''- Implement responsive layouts,'',
      ''5. **Polish and Optimize**:,'',
      [CHR 0x09, CHR 0x09] @ ''- Review the overall user experience,'',
      [CHR 0x09, CHR 0x09] @ ''- Ensure smooth interactions and transitions,'',
      [CHR 0x09, CHR 0x09] @ ''- Optimize performance where needed,'',
      [],
      ''## SEO Best Practices,'',
      ''Automatically implement SEO best practices on every page:,'',
      ''- **Title Tags**: Include proper, descriptive title tags for each page,'',
      ''- **Meta Descriptions**: Add compelling meta descriptions that accurately summarize page content,'',
      ''- **Heading Structure**: Use a single `<h1>` per page with proper heading hierarchy,'',
      ''- **Semantic HTML**: Use appropriate HTML5 semantic elements,'',
      ''- **Unique IDs**: Ensure all interactive elements have unique, descriptive IDs for browser testing,'',
      ''- **Performance**: Ensure fast page load times through optimization,'',
      ''CRITICAL REMINDER: AESTHETICS ARE VERY IMPORTANT. If your web app looks simple and basic then you have FAILED!'',
      ''</web_application_development>'',
      ''<ephemeral_message>'',
      ''There will be an <EPHEMERAL_MESSAGE> appearing in the conversation at times. This is not coming from the user, but instead injected by the system as important information to pay attention to. '',
      ''Do not respond to nor acknowledge those messages, but do follow them strictly.'',
      ''</ephemeral_message>'',
      [],
      [],
      ''<communication_style>'',
      ''- **Formatting**. Format your responses in github-style markdown to make your responses easier for the USER to parse. For example, use headers to organize your responses and bolded or italicized text to highlight important keywords. Use backticks to format file, directory, function, and class names. If providing a URL to the user, format this in markdown as well, for example `[label](example.com)`.'',
      ''- **Proactiveness**. As an agent, you are allowed to be proactive, but only in the course of completing the user'' @ [CHR 0x27] @ ''s task. For example, if the user asks you to add a new component, you can edit the code, verify build and test statuses, and take any other obvious follow-up actions, such as performing additional research. However, avoid surprising the user. For example, if the user asks HOW to approach something, you should answer their question and instead of jumping into editing a file.'',
      ''- **Helpfulness**. Respond like a helpful software engineer who is explaining your work to a friendly collaborator on the project. Acknowledge mistakes or any backtracking you do as a result of new information.'',
      ''- **Ask for clarification**. If you are unsure about the USER'' @ [CHR 0x27] @ ''s intent, always ask for clarification rather than making assumptions.'',
      ''</communication_style>'']"

text \<open>
  The request that \<open>convertAnthropicToGoogle\<close> returns, as far as the builder looks
  into it: a part has a text or none, a system instruction has a role and a list of
  parts or none, and the request has a system instruction or none.
\<close>

datatype part = Part (part_text: "string option")

record system_instruction =
  role :: "string option"
  parts :: "part list option"

record 'c google_request =
  contents :: 'c
  systemInstruction :: "system_instruction option"
  sessionId :: "string option"

record 'c payload =
  p_project :: string
  p_model :: string
  p_request :: "'c google_request"
  p_userAgent :: string
  p_requestType :: string
  p_requestId :: string

text \<open>
  \<open>parts.map(p => p.text || '').filter(t => t).join('\n')\<close> when the request has a
  system instruction with parts; the empty string stands for "no existing text".
\<close>

definition existingText :: "'c google_request \<Rightarrow> string" where
  "existingText googleRequest =
     (case systemInstruction googleRequest of
        None \<Rightarrow> []
      | Some si \<Rightarrow>
          (case parts si of
             None \<Rightarrow> []
           | Some ps \<Rightarrow> join [CHR 0x0A] (filter (\<lambda>t. t \<noteq> []) (map (\<lambda>p. orEmpty (part_text p)) ps))))"

text \<open>
  \<open>buildCloudCodeRequest(anthropicRequest, projectId)\<close>. Of the request it is given
  the model, what \<open>convertAnthropicToGoogle\<close> makes of it, what \<open>deriveSessionId\<close>
  derives from it, and the output of \<open>crypto.randomUUID()\<close>.
\<close>

definition buildCloudCodeRequest ::
  "string \<Rightarrow> 'c google_request \<Rightarrow> string \<Rightarrow> string \<Rightarrow> string \<Rightarrow> 'c payload" where
  "buildCloudCodeRequest mdl converted derivedSessionId uuid projectId =
     (let googleRequest = converted\<lparr>sessionId := Some derivedSessionId\<rparr>;
          systemInstructionText =
            (if existingText googleRequest \<noteq> []
             then ANTIGRAVITY_SYSTEM_INSTRUCTION @ [CHR 0x0A, CHR 0x0A] @ existingText googleRequest
             else ANTIGRAVITY_SYSTEM_INSTRUCTION)
      in \<lparr>p_project = projectId,
          p_model = mdl,
          p_request = googleRequest
            \<lparr>systemInstruction :=
               Some \<lparr>role = Some ''user'', parts = Some [Part (Some systemInstructionText)]\<rparr>\<rparr>,
          p_userAgent = ''antigravity'',
          p_requestType = ''agent'',
          p_requestId = ''agent-'' @ uuid\<rparr>)"

section \<open>An account pool and error kinds to run the handlers against\<close>

text \<open>
  Modelled from the spec: \<open>account-manager/index.js\<close> is not part of the sources at
  hand. This is the account pool of the specification (Data model, Account Pool and
  Token / Project Cache): accounts in insertion order, per account and model a state
  that is free or limited until an instant, a sticky account per model, a round-robin
  cursor, a clock, and the cached token and project of each account. It is used to run
  the handlers on concrete inputs; the general theorems below hold for every account
  manager.
\<close>

record pool =
  pool_accounts :: "string list"
  pool_limits :: "((string \<times> string) \<times> nat) list"
  pool_sticky :: "(string \<times> string) list"
  pool_cursor :: nat
  pool_now :: nat
  pool_tokens :: "(string \<times> string) list"
  pool_projects :: "(string \<times> string) list"
  pool_refreshes :: nat

definition isFree :: "pool \<Rightarrow> string \<Rightarrow> string \<Rightarrow> bool" where
  "isFree p em model =
     (case map_of (pool_limits p) (em, model) of None \<Rightarrow> True | Some t \<Rightarrow> t \<le> pool_now p)"

definition availableFor :: "string \<Rightarrow> pool \<Rightarrow> account list" where
  "availableFor model p = map Account (filter (\<lambda>em. isFree p em model) (pool_accounts p))"

definition clearExpired :: "pool \<Rightarrow> pool" where
  "clearExpired p = p\<lparr>pool_limits := filter (\<lambda>(k, t). pool_now p < t) (pool_limits p)\<rparr>"

definition allLimited :: "string \<Rightarrow> pool \<Rightarrow> bool" where
  "allLimited model p = (pool_accounts p \<noteq> [] \<and> availableFor model p = [])"

definition minWaitMs :: "string \<Rightarrow> pool \<Rightarrow> nat" where
  "minWaitMs model p =
     (case map (\<lambda>em. case map_of (pool_limits p) (em, model) of
                        None \<Rightarrow> 0 | Some t \<Rightarrow> t - pool_now p) (pool_accounts p) of
        [] \<Rightarrow> 0
      | x # xs \<Rightarrow> foldr min xs x)"

definition stickyAccount :: "string \<Rightarrow> pool \<Rightarrow> account option \<times> pool" where
  "stickyAccount model p =
     (case map_of (pool_sticky p) model of
        None \<Rightarrow> (None, p)
      | Some em \<Rightarrow> if isFree p em model then (Some (Account em), p) else (None, p))"

definition pickNextFree :: "string \<Rightarrow> pool \<Rightarrow> account option \<times> pool" where
  "pickNextFree model p =
     (let n = length (pool_accounts p);
          order = map (\<lambda>k. (pool_cursor p + 1 + k) mod n) [0..<n]
      in case filter (\<lambda>i. isFree p (pool_accounts p ! i) model) order of
           [] \<Rightarrow> (None, p)
         | i # rest \<Rightarrow>
             (Some (Account (pool_accounts p ! i)),
              p\<lparr>pool_cursor := i, pool_sticky := (model, pool_accounts p ! i) # pool_sticky p\<rparr>))"

definition markLimited :: "string \<Rightarrow> nat option \<Rightarrow> string \<Rightarrow> pool \<Rightarrow> pool" where
  "markLimited em ms model p =
     p\<lparr>pool_limits := ((em, model), pool_now p + numOr ms DEFAULT_COOLDOWN_MS) # pool_limits p,
       pool_sticky := filter (\<lambda>(m, e). \<not> (m = model \<and> e = em)) (pool_sticky p)\<rparr>"

definition invalidateToken :: "string \<Rightarrow> pool \<Rightarrow> pool" where
  "invalidateToken em p = p\<lparr>pool_tokens := filter (\<lambda>(e, t). e \<noteq> em) (pool_tokens p)\<rparr>"

definition invalidateProject :: "string \<Rightarrow> pool \<Rightarrow> pool" where
  "invalidateProject em p = p\<lparr>pool_projects := filter (\<lambda>(e, t). e \<noteq> em) (pool_projects p)\<rparr>"

text \<open>A refresh gives a token that was never handed out before: it carries a counter.\<close>

definition tokenFor :: "account \<Rightarrow> pool \<Rightarrow> (jserror + string) \<times> pool" where
  "tokenFor acc p =
     (case map_of (pool_tokens p) (email acc) of
        Some t \<Rightarrow> (Inr t, p)
      | None \<Rightarrow>
          (let t = ''token-'' @ showNat (pool_refreshes p)
           in (Inr t, p\<lparr>pool_tokens := (email acc, t) # pool_tokens p,
                         pool_refreshes := pool_refreshes p + 1\<rparr>)))"

definition projectFor :: "account \<Rightarrow> string \<Rightarrow> pool \<Rightarrow> (jserror + string) \<times> pool" where
  "projectFor acc token p =
     (case map_of (pool_projects p) (email acc) of
        Some pr \<Rightarrow> (Inr pr, p)
      | None \<Rightarrow> (Inr ''project-1'', p\<lparr>pool_projects := (email acc, ''project-1'') # pool_projects p\<rparr>))"

definition poolManager :: "pool account_manager" where
  "poolManager =
     \<lparr>getAccountCount = (\<lambda>p. length (pool_accounts p)),
      clearExpiredLimits = clearExpired,
      getAvailableAccounts = availableFor,
      isAllRateLimited = allLimited,
      getMinWaitTimeMs = minWaitMs,
      getCurrentStickyAccount = stickyAccount,
      pickNext = pickNextFree,
      markRateLimited = markLimited,
      clearTokenCache = invalidateToken,
      clearProjectCache = invalidateProject,
      getTokenForAccount = tokenFor,
      getProjectForAccount = projectFor\<rparr>"

text \<open>
  Modelled from the spec: \<open>errors.js\<close> and \<open>utils/helpers.js\<close> are not part of the
  sources at hand. An error is of one of the kinds of the specification (Error
  handling design) when its class is that kind or its message carries the marker the
  handlers themselves write for that kind.
\<close>

definition errorKinds :: classifiers where
  "errorKinds =
     \<lparr>isRateLimitError = (\<lambda>e. err_class e = ''RateLimitError''
          \<or> includesStr (err_message e) ''QUOTA_EXHAUSTED''
          \<or> includesStr (err_message e) ''RESOURCE_EXHAUSTED''
          \<or> includesStr (err_message e) ''RATE_LIMITED''
          \<or> includesStr (err_message e) ''Rate limited''),
      isAuthError = (\<lambda>e. err_class e = ''AuthError'' \<or> includesStr (err_message e) ''AUTH_INVALID''),
      isEmptyResponseError = (\<lambda>e. err_class e = ''EmptyResponseError''),
      isNetworkError = (\<lambda>e. err_class e = ''NetworkError'')\<rparr>"

text \<open>\<open>MODEL_FALLBACK_MAP\<close> of \<open>constants.js\<close>, and the lookup in it.\<close>

definition MODEL_FALLBACK_MAP :: "(string \<times> string) list" where
  "MODEL_FALLBACK_MAP =
     [(''gemini-3-pro-high'', ''claude-opus-4-5-thinking''),
      (''gemini-3-pro-low'', ''claude-sonnet-4-5''),
      (''gemini-3-flash'', ''claude-sonnet-4-5-thinking''),
      (''claude-opus-4-5-thinking'', ''gemini-3-pro-high''),
      (''claude-sonnet-4-5-thinking'', ''gemini-3-flash''),
      (''claude-sonnet-4-5'', ''gemini-3-flash'')]"

text \<open>The answers of the upstream as a script: the n-th answer, and \<open>d\<close> once the script is over.\<close>

definition script :: "'r fetch_result list \<Rightarrow> 'r fetch_result \<Rightarrow> nat \<Rightarrow> 'r fetch_result" where
  "script rs d n = (if n < length rs then rs ! n else d)"

definition testEnv :: "'r fetch_result list \<Rightarrow> 'r fetch_result \<Rightarrow> (pool, 'r) env" where
  "testEnv rs d =
     \<lparr>manager = poolManager,
      classify = errorKinds,
      upstream = script rs d,
      getFallbackModel = map_of MODEL_FALLBACK_MAP,
      sleep = (\<lambda>ms p. p\<lparr>pool_now := pool_now p + ms\<rparr>),
      formatDuration = (\<lambda>ms. showNat ms @ ''ms''),
      isoAfter = (\<lambda>p ms. showNat (pool_now p + ms)),
      randomHex = ''00112233445566778899aabbccddeeff''\<rparr>"

definition freshPool :: "string list \<Rightarrow> pool" where
  "freshPool ems =
     \<lparr>pool_accounts = ems, pool_limits = [], pool_sticky = [], pool_cursor = 0, pool_now = 0,
      pool_tokens = [], pool_projects = [], pool_refreshes = 0\<rparr>"

definition startWorld :: "'s \<Rightarrow> 's world" where
  "startWorld s = \<lparr>am = s, calls = 0, trace = []\<rparr>"

text \<open>Answers of the upstream for the examples.\<close>

definition answer :: "nat \<Rightarrow> string \<Rightarrow> nat option \<Rightarrow> unit fetch_result" where
  "answer st body reset =
     Responds \<lparr>status = st, bodyText = body, parseResetTime = reset,
               streamSSEResponse = ([], None),
               parseThinkingSSEResponse = Inr (), convertGoogleToAnthropic = Inr ()\<rparr>"

definition streamAnswer :: "event list \<Rightarrow> jserror option \<Rightarrow> unit fetch_result" where
  "streamAnswer evs err =
     Responds \<lparr>status = 200, bodyText = [], parseResetTime = None,
               streamSSEResponse = (evs, err),
               parseThinkingSSEResponse = Inr (), convertGoogleToAnthropic = Inr ()\<rparr>"

definition emptyResponseError :: jserror where
  "emptyResponseError = JsError ''No content parts received from API'' False None None ''EmptyResponseError''"

definition networkError :: jserror where
  "networkError = JsError ''fetch failed'' False None None ''NetworkError''"

text \<open>
  The examples: a normal answer of the stream adapter, an empty one, answers of the
  one-shot parsers that tell which of them was used, two pools, and scripts of upstream
  answers.
\<close>

definition hello :: "event list" where
  "hello = [MessageStart ''msg_1'' ''claude-sonnet-4-5'' 3 0, ContentBlockStart 0 (TextBlock []),
            ContentBlockDelta 0 (TextDelta (Some ''hello'')), ContentBlockStop 0,
            MessageDelta (Some ''end_turn'') 1, MessageStop]"

definition emptyAnswer :: "unit fetch_result" where
  "emptyAnswer = streamAnswer [] (Some emptyResponseError)"

definition oneAccount :: "pool world" where
  "oneAccount = startWorld (freshPool [''a@x''])"

definition twoAccounts :: "pool world" where
  "twoAccounts = startWorld (freshPool [''a@x'', ''b@x''])"

definition okAnswer :: "unit fetch_result" where
  "okAnswer = answer 200 [] None"

definition parsedAnswer :: "string fetch_result" where
  "parsedAnswer =
     Responds \<lparr>status = 200, bodyText = [], parseResetTime = None, streamSSEResponse = ([], None),
               parseThinkingSSEResponse = Inr ''parsed as SSE'',
               convertGoogleToAnthropic = Inr ''converted from JSON''\<rparr>"



definition brokenStream :: "unit fetch_result list" where
  "brokenStream = [streamAnswer [MessageStart ''msg_0'' ''claude-sonnet-4-5'' 3 0] (Some networkError),
                   streamAnswer hello None]"

definition lastRoundWait :: "unit fetch_result list" where
  "lastRoundWait = [answer 500 ''x'' None, answer 500 ''x'' None,
                    answer 429 ''x'' (Some 20000), answer 429 ''x'' (Some 20000)]"

definition staleToken :: "unit fetch_result list" where
  "staleToken = [answer 401 ''x'' None, answer 200 [] None]"

definition fiveFetches :: "unit fetch_result list" where
  "fiveFetches = [emptyAnswer, answer 503 ''x'' None, emptyAnswer, answer 503 ''x'' None, emptyAnswer]"

definition emptyAfter429 :: "unit fetch_result list" where
  "emptyAfter429 = [answer 429 ''x'' None, emptyAnswer]"

definition quotaThenHop :: "unit fetch_result list" where
  "quotaThenHop = [answer 429 ''x'' (Some 200000), answer 200 [] None]"

definition emptyOnce :: "unit fetch_result list" where
  "emptyOnce = [emptyAnswer, streamAnswer hello None]"

definition threeEmpty :: "unit fetch_result list" where
  "threeEmpty = [emptyAnswer, emptyAnswer, emptyAnswer]"

section \<open>Observations on a run\<close>

text \<open>
  The marks of a trace are its \<open>Enter\<close> and \<open>Attempt\<close> entries: which invocations
  of the handler took place, and which rounds of their attempt loops.
\<close>

fun isMark :: "action \<Rightarrow> bool" where
  "isMark (Enter m fb) = True"
| "isMark (Attempt n) = True"
| "isMark a = False"

definition marks :: "action list \<Rightarrow> action list" where
  "marks tr = filter isMark tr"

text \<open>
  An attempt has one re-issue of an endpoint after a short 429 to spend; \<open>credit\<close> is
  what is left of it.
\<close>

definition credit :: "bool \<Rightarrow> nat" where
  "credit retriedOnce = (if retriedOnce then 0 else 1)"

text \<open>
  Upstream calls one round of the attempt loop can make: in \<open>sendMessage\<close> one per
  endpoint and the one re-issue; in \<open>sendMessageStream\<close>, per endpoint, the first call
  and two calls in each of the \<open>MAX_EMPTY_RESPONSE_RETRIES\<close> rounds of the
  empty-response loop.
\<close>

definition perAttempt :: nat where
  "perAttempt = length ANTIGRAVITY_ENDPOINT_FALLBACKS + 1"

definition perAttemptStream :: nat where
  "perAttemptStream = (1 + 2 * MAX_EMPTY_RESPONSE_RETRIES) * length ANTIGRAVITY_ENDPOINT_FALLBACKS"

text \<open>The invocations of the handler among the marks.\<close>

fun isEnter :: "action \<Rightarrow> bool" where
  "isEnter (Enter m fb) = True"
| "isEnter a = False"

definition enters :: "action list \<Rightarrow> action list" where
  "enters tr = filter isEnter tr"

text \<open>
  The events handed to the consumer, in order; whether an upstream call follows the
  first of them.
\<close>

fun yields :: "action list \<Rightarrow> event list" where
  "yields [] = []"
| "yields (Yield e # as) = e # yields as"
| "yields (a # as) = yields as"

fun isFetch :: "action \<Rightarrow> bool" where
  "isFetch (Fetch url token) = True"
| "isFetch a = False"

fun fetchAfterYield :: "action list \<Rightarrow> bool" where
  "fetchAfterYield [] = False"
| "fetchAfterYield (Yield e # as) = list_ex isFetch as"
| "fetchAfterYield (a # as) = fetchAfterYield as"

text \<open>
  A stream adapter that throws only before it has yielded anything, as the
  empty-response detection does: a property of the answers of the upstream.
\<close>

definition quietRaise :: "'r response \<Rightarrow> bool" where
  "quietRaise resp = (case streamSSEResponse resp of (evs, None) \<Rightarrow> True | (evs, Some e) \<Rightarrow> evs = [])"

definition wellBehaved :: "('s, 'r) env \<Rightarrow> bool" where
  "wellBehaved env = (\<forall>n resp. upstream env n = Responds resp \<longrightarrow> quietRaise resp)"

text \<open>
  A trace in which the events are the last thing that happened and come from one
  source: they are what the adapter yielded for one answer of the upstream, completing
  normally, or they are the synthetic empty-response message.
\<close>

definition fromUpstream :: "('s, 'r) env \<Rightarrow> event list \<Rightarrow> bool" where
  "fromUpstream env evs = (\<exists>n resp. upstream env n = Responds resp \<and> streamSSEResponse resp = (evs, None))"

definition atomicStream :: "('s, 'r) env \<Rightarrow> action list \<Rightarrow> bool" where
  "atomicStream env tr =
     (\<exists>pre evs. tr = pre @ map Yield evs \<and> yields pre = [] \<and> evs \<noteq> []
        \<and> (fromUpstream env evs \<or> (\<exists>m. evs = emitEmptyResponseFallback (randomHex env) m)))"

text \<open>
  Where \<open>sendMessage\<close> sends a request and how it reads the answer. An upstream call is
  routed as server-sent events when its URL ends in \<open>streamGenerateContent?alt=sse\<close>, and
  as one JSON document when it ends in \<open>generateContent\<close>; \<open>extends sse w w'\<close> says that
  \<open>w'\<close> continues the trace of \<open>w\<close> and every upstream call it adds is routed as
  \<open>sse\<close> says; \<open>parsedBy sse env d\<close> that \<open>d\<close> is what the parser for that route made of an
  answer of the upstream.
\<close>

fun routed :: "bool \<Rightarrow> action \<Rightarrow> bool" where
  "routed sse (Fetch url token) =
     suffix (if sse then ''/v1internal:streamGenerateContent?alt=sse''
             else ''/v1internal:generateContent'') url"
| "routed sse a = True"

definition extends :: "bool \<Rightarrow> 's world \<Rightarrow> 's world \<Rightarrow> bool" where
  "extends sse w w' = (\<exists>tr. trace w' = trace w @ tr \<and> list_all (routed sse) tr)"

definition parsedBy :: "bool \<Rightarrow> ('s, 'r) env \<Rightarrow> 'r \<Rightarrow> bool" where
  "parsedBy sse env d =
     (\<exists>n resp. upstream env n = Responds resp
        \<and> (if sse then parseThinkingSSEResponse resp else convertGoogleToAnthropic resp) = Inr d)"

text \<open>
  The three errors that the handlers throw on a 429 are recognised by
  \<open>isRateLimitError\<close>: a property of the classifiers.
\<close>

definition recognisesRateLimits :: "classifiers \<Rightarrow> bool" where
  "recognisesRateLimits c =
     (\<forall>txt. isRateLimitError c (newError (''QUOTA_EXHAUSTED: '' @ txt))
          \<and> isRateLimitError c (newError (''RATE_LIMITED_AFTER_RETRY: '' @ txt))
          \<and> isRateLimitError c (newError (''RATE_LIMITED: '' @ txt)))"

text \<open>An answer of the upstream whose stream adapter throws only before it yields.\<close>

fun quietAnswer :: "'r fetch_result \<Rightarrow> bool" where
  "quietAnswer (FetchThrows e) = True"
| "quietAnswer (Responds resp) = quietRaise resp"

text \<open>
  The description of \<open>isThinkingModel\<close> speaks of a name that "matches gemini-N for an
  integer N". In its own terms, without the matcher of the code: the name has
  \<open>gemini-\<close> followed by a decimal numeral, the numeral is taken whole (what follows
  it is not a digit), it is the first such place in the name, and \<open>N\<close> is the value of
  the numeral.
\<close>

definition decimalDigit :: "char \<Rightarrow> bool" where
  "decimalDigit c = (c \<in> set ''0123456789'')"

definition digitValue :: "char \<Rightarrow> nat" where
  "digitValue c = length (takeWhile (\<lambda>d. d \<noteq> c) ''0123456789'')"

definition decimalValue :: "string \<Rightarrow> nat" where
  "decimalValue ds = (\<Sum>i<length ds. digitValue (ds ! i) * 10 ^ (length ds - Suc i))"

definition matchesGeminiN :: "string \<Rightarrow> nat \<Rightarrow> bool" where
  "matchesGeminiN s n =
     (\<exists>pre ds rest.
        s = pre @ ''gemini-'' @ ds @ rest
        \<and> ds \<noteq> [] \<and> (\<forall>c \<in> set ds. decimalDigit c)
        \<and> (rest = [] \<or> \<not> decimalDigit (hd rest))
        \<and> (\<forall>pre' c rest'. s = pre' @ ''gemini-'' @ c # rest' \<and> decimalDigit c
              \<longrightarrow> length pre \<le> length pre')
        \<and> n = decimalValue ds)"

section \<open>Properties\<close>

lemma written_append: "written (xs @ ys) = written xs @ written ys"
  by (induction xs rule: written.induct) auto

lemma chunkLoop_unfold:
  "i < length p \<Longrightarrow>
   written (chunkLoop n t p i) =
     ToolUseEvent n t (Some (slice p i (i + chunkSize))) False # written (chunkLoop n t p (i + chunkSize))"
  by (subst chunkLoop.simps) (simp add: written_append)

lemma chunkLoop_done: "\<not> i < length p \<Longrightarrow> chunkLoop n t p i = []"
  by (subst chunkLoop.simps) simp

lemma chunkLoop_concat:
  "concat (map inputOf (written (chunkLoop n t p i))) = drop i p"
proof (induction n t p i rule: chunkLoop.induct)
  case (1 n t p i)
  show ?case
  proof (cases "i < length p")
    case True
    have "drop i p = take chunkSize (drop i p) @ drop (i + chunkSize) p"
      by (metis add.commute append_take_drop_id drop_drop)
    with True 1 show ?thesis
      by (simp add: chunkLoop_unfold slice_def)
  next
    case False
    then show ?thesis by (simp add: chunkLoop_done)
  qed
qed

lemma chunkLoop_frames:
  "f \<in> set (written (chunkLoop n t p i)) \<Longrightarrow>
   isToolInputFrame n t f \<and> length (inputOf f) \<le> 8 \<and> inputOf f \<noteq> []"
proof (induction n t p i rule: chunkLoop.induct)
  case (1 n t p i)
  show ?case
  proof (cases "i < length p")
    case True
    with 1 show ?thesis
      by (auto simp: chunkLoop_unfold slice_def chunkSize_def)
  next
    case False
    with 1 show ?thesis by (simp add: chunkLoop_done)
  qed
qed

subsection \<open>The chunked tool input of the Kiro surface\<close>

text \<open>
  Claim C9. While a tool block is open (the tool id and the tool name are both
  truthy), an \<open>input_json_delta\<close> with a non-empty \<open>partial_json\<close> makes the loop body
  write only \<open>toolUseEvent\<close> frames of that tool; each carries a non-empty input chunk
  of at most 8 characters, and the chunks, in the order written, concatenate to
  \<open>partial_json\<close>.
\<close>

theorem tool_input_chunks:
  assumes "pj \<noteq> []" and "truthyStr (currentToolId s)" and "truthyStr (currentToolName s)"
  shows "\<exists>effs s'. handleEvent s (ContentBlockDelta idx (InputJsonDelta (Some pj))) = Inr (effs, s')
           \<and> written effs \<noteq> []
           \<and> (\<forall>f \<in> set (written effs).
                 isToolInputFrame (currentToolName s) (currentToolId s) f \<and> length (inputOf f) \<le> 8)
           \<and> concat (map inputOf (written effs)) = pj"
proof -
  let ?effs = "chunkLoop (currentToolName s) (currentToolId s) pj 0"
  have run: "handleEvent s (ContentBlockDelta idx (InputJsonDelta (Some pj)))
               = Inr (?effs, s\<lparr>hasEmittedContent := True\<rparr>)"
    using assms by (simp add: orEmpty_def)
  have cat: "concat (map inputOf (written ?effs)) = pj"
    by (simp only: chunkLoop_concat drop_0)
  have nonempty: "written ?effs \<noteq> []"
    using cat assms(1) by auto
  have each: "\<forall>f \<in> set (written ?effs).
                isToolInputFrame (currentToolName s) (currentToolId s) f \<and> length (inputOf f) \<le> 8"
    using chunkLoop_frames by blast
  from run nonempty each cat show ?thesis by blast
qed

theorem tool_input_chunks_witness:
  "''{q:12345678901}'' \<noteq> []
   \<and> truthyStr (Some ''call_1'') \<and> truthyStr (Some ''search'')
   \<and> (\<exists>effs s'.
         handleEvent \<lparr>fullContent = [], inputTokens = 0, outputTokens = 0, hasEmittedContent = False,
                      currentToolId = Some ''call_1'', currentToolName = Some ''search''\<rparr>
           (ContentBlockDelta 2 (InputJsonDelta (Some ''{q:12345678901}''))) = Inr (effs, s')
         \<and> written effs \<noteq> []
         \<and> (\<forall>f \<in> set (written effs).
               isToolInputFrame (Some ''search'') (Some ''call_1'') f \<and> length (inputOf f) \<le> 8)
         \<and> concat (map inputOf (written effs)) = ''{q:12345678901}'')"
  using tool_input_chunks
    [of "''{q:12345678901}''"
        "\<lparr>fullContent = [], inputTokens = 0, outputTokens = 0, hasEmittedContent = False,
          currentToolId = Some ''call_1'', currentToolName = Some ''search''\<rparr>" 2]
  by (simp add: truthyStr_def)

subsection \<open>Thinking models\<close>

lemma includesStr_sublist: "includesStr s sub \<longleftrightarrow> sublist sub s"
  by (induction s) (auto simp: sublist_Cons_right)

lemma char_of_digits:
  "char_of (48::nat) = CHR ''0''" "char_of (49::nat) = CHR ''1''" "char_of (50::nat) = CHR ''2''"
  "char_of (51::nat) = CHR ''3''" "char_of (52::nat) = CHR ''4''" "char_of (53::nat) = CHR ''5''"
  "char_of (54::nat) = CHR ''6''" "char_of (55::nat) = CHR ''7''" "char_of (56::nat) = CHR ''8''"
  "char_of (57::nat) = CHR ''9''"
  by code_simp+

lemma isDigit_decimalDigit: "isDigit c \<longleftrightarrow> decimalDigit c"
proof
  assume "isDigit c"
  then have "(of_char c :: nat) = 48 \<or> (of_char c :: nat) = 49 \<or> (of_char c :: nat) = 50
      \<or> (of_char c :: nat) = 51 \<or> (of_char c :: nat) = 52 \<or> (of_char c :: nat) = 53
      \<or> (of_char c :: nat) = 54 \<or> (of_char c :: nat) = 55 \<or> (of_char c :: nat) = 56
      \<or> (of_char c :: nat) = 57"
    unfolding isDigit_def by arith
  then have "char_of (of_char c :: nat) \<in> set ''0123456789''"
    by (auto simp: char_of_digits simp del: char_of_char)
  then show "decimalDigit c"
    by (simp add: decimalDigit_def)
next
  assume "decimalDigit c"
  then have "c \<in> set ''0123456789''" by (simp add: decimalDigit_def)
  then show "isDigit c"
    unfolding isDigit_def by (elim disjE | simp)+
qed

lemma digitValue_of_char: "decimalDigit c \<Longrightarrow> digitValue c = (of_char c :: nat) - 48"
  unfolding decimalDigit_def digitValue_def by (elim disjE | simp)+

lemma decimalValue_Cons:
  "decimalValue (c # cs) = digitValue c * 10 ^ length cs + decimalValue cs"
  by (simp add: decimalValue_def sum.lessThan_Suc_shift del: sum.lessThan_Suc)

lemma foldl_decimal:
  "\<forall>c \<in> set ds. decimalDigit c \<Longrightarrow>
   foldl (\<lambda>n c. 10 * n + ((of_char c :: nat) - 48)) a ds = a * 10 ^ length ds + decimalValue ds"
proof (induction ds arbitrary: a)
  case Nil
  show ?case by (simp add: decimalValue_def)
next
  case (Cons c cs)
  then show ?case
    by (simp add: decimalValue_Cons digitValue_of_char algebra_simps)
qed

lemma parseInt10_decimalValue: "\<forall>c \<in> set ds. decimalDigit c \<Longrightarrow> parseInt10 ds = decimalValue ds"
  by (simp add: parseInt10_def foldl_decimal)


lemma takeWhile_digits:
  "\<forall>c \<in> set ds. isDigit c \<Longrightarrow> rest = [] \<or> \<not> isDigit (hd rest) \<Longrightarrow> takeWhile isDigit (ds @ rest) = ds"
proof -
  assume d: "\<forall>c \<in> set ds. isDigit c" and r: "rest = [] \<or> \<not> isDigit (hd rest)"
  from r have "takeWhile isDigit rest = []" by (cases rest) auto
  with d show ?thesis by (simp add: takeWhile_append2)
qed

lemma hit_iff:
  "prefix ''gemini-'' s \<and> takeWhile isDigit (drop 7 s) \<noteq> []
   \<longleftrightarrow> (\<exists>c rest'. s = ''gemini-'' @ c # rest' \<and> isDigit c)"
proof
  assume h: "prefix ''gemini-'' s \<and> takeWhile isDigit (drop 7 s) \<noteq> []"
  then obtain t where t: "s = ''gemini-'' @ t" by (auto simp: prefix_def)
  with h have "takeWhile isDigit t \<noteq> []" by simp
  then obtain c rest' where "t = c # rest'" "isDigit c"
    by (cases t) (auto split: if_splits)
  with t show "\<exists>c rest'. s = ''gemini-'' @ c # rest' \<and> isDigit c" by blast
next
  assume "\<exists>c rest'. s = ''gemini-'' @ c # rest' \<and> isDigit c"
  then show "prefix ''gemini-'' s \<and> takeWhile isDigit (drop 7 s) \<noteq> []" by auto
qed

lemma versionMatch_sound:
  "versionMatch s = Some ds \<Longrightarrow>
   \<exists>pre rest. s = pre @ ''gemini-'' @ ds @ rest \<and> ds \<noteq> [] \<and> (\<forall>c \<in> set ds. isDigit c)
      \<and> (rest = [] \<or> \<not> isDigit (hd rest))
      \<and> (\<forall>pre' c rest'. s = pre' @ ''gemini-'' @ c # rest' \<and> isDigit c \<longrightarrow> length pre \<le> length pre')"
proof (induction s)
  case Nil
  then show ?case by simp
next
  case (Cons a s)
  show ?case
  proof (cases "prefix ''gemini-'' (a # s) \<and> takeWhile isDigit (drop 7 (a # s)) \<noteq> []")
    case True
    with Cons.prems have ds: "ds = takeWhile isDigit (drop 7 (a # s))" by simp
    from True obtain t where t: "a # s = ''gemini-'' @ t" by (auto simp: prefix_def)
    then have dt: "drop 7 (a # s) = t" by simp
    have "a # s = [] @ ''gemini-'' @ ds @ dropWhile isDigit t"
      using t ds dt by simp
    moreover have "ds \<noteq> []" using True ds by simp
    moreover have "\<forall>c \<in> set ds. isDigit c" using ds by (auto dest: set_takeWhileD)
    moreover have "dropWhile isDigit t = [] \<or> \<not> isDigit (hd (dropWhile isDigit t))"
      by (metis hd_dropWhile)
    ultimately show ?thesis by (metis le0 list.size(3))
  next
    case False
    from Cons.prems False have "versionMatch s = Some ds"
      by (simp only: versionMatch.simps if_False)
    from Cons.IH [OF this] obtain pre rest where p: "s = pre @ ''gemini-'' @ ds @ rest" "ds \<noteq> []"
      "\<forall>c \<in> set ds. isDigit c" "rest = [] \<or> \<not> isDigit (hd rest)"
      "\<forall>pre' c rest'. s = pre' @ ''gemini-'' @ c # rest' \<and> isDigit c \<longrightarrow> length pre \<le> length pre'"
      by blast
    have left: "length (a # pre) \<le> length pre'"
      if d: "a # s = pre' @ ''gemini-'' @ c # rest'" and c: "isDigit c" for pre' c rest'
    proof (cases pre')
      case Nil
      with d c have "\<exists>c rest'. a # s = ''gemini-'' @ c # rest' \<and> isDigit c" by auto
      with False hit_iff [of "a # s"] show ?thesis by blast
    next
      case (Cons b pre'')
      with d have "s = pre'' @ ''gemini-'' @ c # rest'" by simp
      with p(5) c have "length pre \<le> length pre''" by blast
      with Cons show ?thesis by simp
    qed
    have "a # s = (a # pre) @ ''gemini-'' @ ds @ rest" using p(1) by simp
    with p(2,3,4) left show ?thesis by blast
  qed
qed

lemma versionMatch_complete:
  "s = pre @ ''gemini-'' @ ds @ rest \<Longrightarrow> ds \<noteq> [] \<Longrightarrow> \<forall>c \<in> set ds. isDigit c
   \<Longrightarrow> rest = [] \<or> \<not> isDigit (hd rest)
   \<Longrightarrow> \<forall>pre' c rest'. s = pre' @ ''gemini-'' @ c # rest' \<and> isDigit c \<longrightarrow> length pre \<le> length pre'
   \<Longrightarrow> versionMatch s = Some ds"
proof (induction pre arbitrary: s)
  case Nil
  then have "takeWhile isDigit (ds @ rest) = ds" by (intro takeWhile_digits) auto
  with Nil show ?case by simp
next
  case (Cons a pre)
  let ?t = "pre @ ''gemini-'' @ ds @ rest"
  have s: "s = a # ?t" using Cons.prems(1) by simp
  have nohit: "\<not> (prefix ''gemini-'' (a # ?t) \<and> takeWhile isDigit (drop 7 (a # ?t)) \<noteq> [])"
  proof
    assume "prefix ''gemini-'' (a # ?t) \<and> takeWhile isDigit (drop 7 (a # ?t)) \<noteq> []"
    then obtain c rest' where "a # ?t = ''gemini-'' @ c # rest'" "isDigit c"
      using hit_iff [of "a # ?t"] by blast
    then have "s = [] @ ''gemini-'' @ c # rest'" "isDigit c" using s by simp_all
    with Cons.prems(5) have "length (a # pre) \<le> length ([]::string)" by blast
    then show False by simp
  qed
  have "\<forall>pre' c rest'. ?t = pre' @ ''gemini-'' @ c # rest' \<and> isDigit c \<longrightarrow> length pre \<le> length pre'"
  proof (intro allI impI)
    fix pre' c rest'
    assume "?t = pre' @ ''gemini-'' @ c # rest' \<and> isDigit c"
    then have "s = (a # pre') @ ''gemini-'' @ c # rest' \<and> isDigit c" using s by simp
    with Cons.prems(5) have "length (a # pre) \<le> length (a # pre')" by blast
    then show "length pre \<le> length pre'" by simp
  qed
  from Cons.IH [OF refl Cons.prems(2,3,4) this] have "versionMatch ?t = Some ds" .
  moreover from nohit have "versionMatch (a # ?t) = versionMatch ?t"
    by (simp only: versionMatch.simps if_False)
  ultimately show ?case unfolding s by simp
qed

lemma versionMatch_matchesGeminiN:
  "(\<exists>ds. versionMatch s = Some ds \<and> 3 \<le> parseInt10 ds) \<longleftrightarrow> (\<exists>n. 3 \<le> n \<and> matchesGeminiN s n)"
proof
  assume "\<exists>ds. versionMatch s = Some ds \<and> 3 \<le> parseInt10 ds"
  then obtain ds where m: "versionMatch s = Some ds" and three: "3 \<le> parseInt10 ds" by blast
  from versionMatch_sound [OF m] obtain pre rest where p: "s = pre @ ''gemini-'' @ ds @ rest" "ds \<noteq> []"
    "\<forall>c \<in> set ds. isDigit c" "rest = [] \<or> \<not> isDigit (hd rest)"
    "\<forall>pre' c rest'. s = pre' @ ''gemini-'' @ c # rest' \<and> isDigit c \<longrightarrow> length pre \<le> length pre'"
    by blast
  then have "matchesGeminiN s (decimalValue ds)"
    unfolding matchesGeminiN_def isDigit_decimalDigit by blast
  moreover have "parseInt10 ds = decimalValue ds"
    using p(3) by (intro parseInt10_decimalValue) (simp add: isDigit_decimalDigit)
  ultimately show "\<exists>n. 3 \<le> n \<and> matchesGeminiN s n" using three by auto
next
  assume "\<exists>n. 3 \<le> n \<and> matchesGeminiN s n"
  then obtain n pre ds rest where three: "3 \<le> n" and p: "s = pre @ ''gemini-'' @ ds @ rest" "ds \<noteq> []"
    "\<forall>c \<in> set ds. isDigit c" "rest = [] \<or> \<not> isDigit (hd rest)"
    "\<forall>pre' c rest'. s = pre' @ ''gemini-'' @ c # rest' \<and> isDigit c \<longrightarrow> length pre \<le> length pre'"
    and n: "n = decimalValue ds"
    unfolding matchesGeminiN_def isDigit_decimalDigit by blast
  from versionMatch_complete [OF p] have "versionMatch s = Some ds" .
  moreover have "parseInt10 ds = decimalValue ds"
    using p(3) by (intro parseInt10_decimalValue) (simp add: isDigit_decimalDigit)
  ultimately show "\<exists>ds. versionMatch s = Some ds \<and> 3 \<le> parseInt10 ds" using three n by auto
qed

lemma versionMatch_value:
  "versionMatch s = Some ds \<Longrightarrow> matchesGeminiN s (parseInt10 ds)"
proof -
  assume m: "versionMatch s = Some ds"
  from versionMatch_sound [OF m] obtain pre rest where p: "s = pre @ ''gemini-'' @ ds @ rest" "ds \<noteq> []"
    "\<forall>c \<in> set ds. isDigit c" "rest = [] \<or> \<not> isDigit (hd rest)"
    "\<forall>pre' c rest'. s = pre' @ ''gemini-'' @ c # rest' \<and> isDigit c \<longrightarrow> length pre \<le> length pre'"
    by blast
  then have "matchesGeminiN s (decimalValue ds)"
    unfolding matchesGeminiN_def isDigit_decimalDigit by blast
  moreover have "parseInt10 ds = decimalValue ds"
    using p(3) by (intro parseInt10_decimalValue) (simp add: isDigit_decimalDigit)
  ultimately show ?thesis by simp
qed

lemma isThinkingModel_unfolded:
  "isThinkingModel m \<longleftrightarrow>
     (sublist ''claude'' (toLowerCase (orEmpty m)) \<and> sublist ''thinking'' (toLowerCase (orEmpty m)))
     \<or> (sublist ''gemini'' (toLowerCase (orEmpty m))
         \<and> (sublist ''thinking'' (toLowerCase (orEmpty m))
             \<or> (\<exists>n. 3 \<le> n \<and> matchesGeminiN (toLowerCase (orEmpty m)) n)))"
proof -
  have "isThinkingModel m \<longleftrightarrow>
     (includesStr (toLowerCase (orEmpty m)) ''claude'' \<and> includesStr (toLowerCase (orEmpty m)) ''thinking'')
     \<or> (includesStr (toLowerCase (orEmpty m)) ''gemini''
         \<and> (includesStr (toLowerCase (orEmpty m)) ''thinking''
             \<or> (\<exists>ds. versionMatch (toLowerCase (orEmpty m)) = Some ds \<and> 3 \<le> parseInt10 ds)))"
    by (auto simp: isThinkingModel_def Let_def split: option.splits)
  then show ?thesis
    unfolding includesStr_sublist versionMatch_matchesGeminiN .
qed

lemma matchesGeminiN_gemini: "matchesGeminiN s n \<Longrightarrow> sublist ''gemini'' s"
proof -
  assume "matchesGeminiN s n"
  then obtain pre ds rest where "s = pre @ ''gemini-'' @ ds @ rest"
    unfolding matchesGeminiN_def by blast
  then have "s = pre @ ''gemini'' @ (''-'' @ ds @ rest)" by simp
  then show ?thesis unfolding sublist_def by blast
qed

subsection \<open>The system instruction of the upstream payload\<close>

lemma existingText_sessionId:
  "existingText (converted\<lparr>sessionId := sid\<rparr>) = existingText converted"
  by (simp add: existingText_def)

text \<open>
  Claim C7. The payload's \<open>request.systemInstruction\<close> has role \<open>user\<close> and exactly
  one part; its text starts with the fixed preamble. When the converted request
  carries system text (the non-empty part texts joined by newlines), the text is the
  preamble, a blank line, and that text; otherwise it is the preamble itself.
\<close>

theorem systemInstruction_preamble:
  "\<exists>txt. systemInstruction (p_request (buildCloudCodeRequest mdl converted sid uuid projectId))
            = Some \<lparr>role = Some ''user'', parts = Some [Part (Some txt)]\<rparr>
         \<and> prefix ANTIGRAVITY_SYSTEM_INSTRUCTION txt
         \<and> (existingText converted \<noteq> [] \<longrightarrow>
              txt = ANTIGRAVITY_SYSTEM_INSTRUCTION @ [CHR 0x0A, CHR 0x0A] @ existingText converted)
         \<and> (existingText converted = [] \<longrightarrow> txt = ANTIGRAVITY_SYSTEM_INSTRUCTION)"
  by (cases "existingText converted = []")
     (simp_all add: buildCloudCodeRequest_def Let_def existingText_sessionId)

theorem systemInstruction_preamble_witness:
  "existingText \<lparr>contents = (), systemInstruction =
        Some \<lparr>role = None, parts = Some [Part (Some ''Be brief.''), Part None, Part (Some ''Use tabs.'')]\<rparr>,
        sessionId = None\<rparr> = ''Be brief.'' @ [CHR 0x0A] @ ''Use tabs.''
   \<and> (\<exists>txt. systemInstruction (p_request (buildCloudCodeRequest ''claude-sonnet-4-5''
          \<lparr>contents = (), systemInstruction =
             Some \<lparr>role = None, parts = Some [Part (Some ''Be brief.''), Part None, Part (Some ''Use tabs.'')]\<rparr>,
             sessionId = None\<rparr> ''s1'' ''u1'' ''p1''))
            = Some \<lparr>role = Some ''user'', parts = Some [Part (Some txt)]\<rparr>
         \<and> prefix ANTIGRAVITY_SYSTEM_INSTRUCTION txt
         \<and> txt = ANTIGRAVITY_SYSTEM_INSTRUCTION @ [CHR 0x0A, CHR 0x0A] @ ''Be brief.'' @ [CHR 0x0A] @ ''Use tabs.'')"
proof -
  have ex: "existingText \<lparr>contents = (), systemInstruction =
        Some \<lparr>role = None, parts = Some [Part (Some ''Be brief.''), Part None, Part (Some ''Use tabs.'')]\<rparr>,
        sessionId = None\<rparr> = ''Be brief.'' @ [CHR 0x0A] @ ''Use tabs.''"
    by (simp add: existingText_def orEmpty_def)
  from systemInstruction_preamble
    [of "''claude-sonnet-4-5''"
        "\<lparr>contents = (), systemInstruction =
           Some \<lparr>role = None, parts = Some [Part (Some ''Be brief.''), Part None, Part (Some ''Use tabs.'')]\<rparr>,
           sessionId = None\<rparr>" "''s1''" "''u1''" "''p1''"]
  show ?thesis unfolding ex by auto
qed

subsection \<open>The primitives of a run\<close>

lemmas prims = logA_def fetch_def sleepW_def clearExpiredLimitsW_def markRateLimitedW_def
  clearTokenCacheW_def clearProjectCacheW_def pickNextW_def getCurrentStickyAccountW_def
  getTokenForAccountW_def getProjectForAccountW_def yieldAll_def

subsection \<open>Running the handlers on the examples\<close>

lemma testEnv_sel:
  "manager (testEnv rs d) = poolManager"
  "classify (testEnv rs d) = errorKinds"
  "upstream (testEnv rs d) = script rs d"
  "getFallbackModel (testEnv rs d) = map_of MODEL_FALLBACK_MAP"
  "sleep (testEnv rs d) = (\<lambda>ms p. p\<lparr>pool_now := pool_now p + ms\<rparr>)"
  "formatDuration (testEnv rs d) = (\<lambda>ms. showNat ms @ ''ms'')"
  "isoAfter (testEnv rs d) = (\<lambda>p ms. showNat (pool_now p + ms))"
  "randomHex (testEnv rs d) = ''00112233445566778899aabbccddeeff''"
  by (simp_all add: testEnv_def)

lemma poolManager_sel:
  "getAccountCount poolManager = (\<lambda>p. length (pool_accounts p))"
  "clearExpiredLimits poolManager = clearExpired"
  "getAvailableAccounts poolManager = availableFor"
  "isAllRateLimited poolManager = allLimited"
  "getMinWaitTimeMs poolManager = minWaitMs"
  "getCurrentStickyAccount poolManager = stickyAccount"
  "pickNext poolManager = pickNextFree"
  "markRateLimited poolManager = markLimited"
  "clearTokenCache poolManager = invalidateToken"
  "clearProjectCache poolManager = invalidateProject"
  "getTokenForAccount poolManager = tokenFor"
  "getProjectForAccount poolManager = projectFor"
  by (simp_all add: poolManager_def)

lemma errorKinds_sel:
  "isRateLimitError errorKinds e = (err_class e = ''RateLimitError''
          \<or> includesStr (err_message e) ''QUOTA_EXHAUSTED''
          \<or> includesStr (err_message e) ''RESOURCE_EXHAUSTED''
          \<or> includesStr (err_message e) ''RATE_LIMITED''
          \<or> includesStr (err_message e) ''Rate limited'')"
  "isAuthError errorKinds e = (err_class e = ''AuthError'' \<or> includesStr (err_message e) ''AUTH_INVALID'')"
  "isEmptyResponseError errorKinds e = (err_class e = ''EmptyResponseError'')"
  "isNetworkError errorKinds e = (err_class e = ''NetworkError'')"
  by (simp_all add: errorKinds_def)

lemma showNat_values:
  "showNat 0 = ''0''" "showNat 1 = ''1''" "showNat 2 = ''2''"
  "showNat 500 = ''500''" "showNat 503 = ''503''"
  by code_simp+

lemma thinking_values:
  "isThinkingModel (Some ''claude-sonnet-4-5'') = False"
  "isThinkingModel (Some ''gemini-3-flash'') = True"
  "isThinkingModel (Some ''Gemini-3-Flash'') = True"
  "isThinkingModel (Some ''gemini-2.5-flash-lite'') = False"
  by code_simp+

lemmas run = testEnv_sel poolManager_sel errorKinds_sel prims sendMessageStream_def sendMessage_def
  attemptLoopStream.simps attemptLoop.simps maxAttemptsOf_def attemptBodyStream_def attemptBody_def
  noAccounts_def chooseAccount_def attemptCatch_def attemptTryStream_def attemptTry_def
  afterEndpoints_def endpointTryStream_def endpointTry_def answer429_def answer429Stream_def
  processResponse_def streamResponse_def emptyRetryLoop.simps emitEmptyResponseFallback_def
  isFree_def availableFor_def clearExpired_def allLimited_def minWaitMs_def stickyAccount_def
  pickNextFree_def markLimited_def invalidateToken_def invalidateProject_def tokenFor_def
  projectFor_def script_def freshPool_def startWorld_def answer_def streamAnswer_def
  emptyResponseError_def networkError_def newError_def ok_def exceeds_def numOr_def truthyNum_def
  truthyStr_def orEmpty_def tmpl_def resourceExhausted_def
  MAX_RETRIES_def MAX_EMPTY_RESPONSE_RETRIES_def MAX_WAIT_BEFORE_ERROR_MS_def DEFAULT_COOLDOWN_MS_def
  ANTIGRAVITY_ENDPOINT_FALLBACKS_def MODEL_FALLBACK_MAP_def Let_def
  showNat_values thinking_values oneAccount_def twoAccounts_def okAnswer_def emptyAnswer_def

subsection \<open>What a block of a handler adds to the calls and the marks\<close>

lemma marks_simps [simp]:
  "marks [] = []"
  "marks (xs @ ys) = marks xs @ marks ys"
  "marks (a # xs) = (if isMark a then a # marks xs else marks xs)"
  by (simp_all add: marks_def)

lemma marks_Yield [simp]: "marks (map Yield evs) = []"
  by (induction evs) auto

lemma answer429_frame:
  "answer429 env isThinking model acc url token resp ro w = ((st, ro'), w') \<Longrightarrow>
   calls w' + credit ro' \<le> calls w + credit ro \<and> marks (trace w') = marks (trace w)"
  unfolding answer429_def
  by (auto simp: prims Let_def credit_def split: if_splits prod.splits fetch_result.splits)

lemma endpointTry_frame:
  "endpointTry env isThinking model acc token endpoint le ro w = ((st, le', ro'), w') \<Longrightarrow>
   calls w' + credit ro' \<le> calls w + 1 + credit ro \<and> marks (trace w') = marks (trace w)"
  unfolding endpointTry_def
  by (auto simp: prims Let_def split: if_splits prod.splits fetch_result.splits
           dest!: answer429_frame)

lemma afterEndpoints_frame:
  "afterEndpoints env model acc le w = (st, w') \<Longrightarrow>
   calls w' = calls w \<and> marks (trace w') = marks (trace w)"
  unfolding afterEndpoints_def
  by (auto simp: prims split: option.splits if_splits)

lemma endpointLoop_frame:
  "endpointLoop env isThinking model acc token es le ro w = (st, w') \<Longrightarrow>
   calls w' \<le> calls w + length es + credit ro \<and> marks (trace w') = marks (trace w)"
proof (induction es arbitrary: le ro w)
  case Nil
  then show ?case by (auto dest: afterEndpoints_frame)
next
  case (Cons e es)
  obtain st1 le1 ro1 w1 where t: "endpointTry env isThinking model acc token e le ro w = ((st1, le1, ro1), w1)"
    by (metis prod_cases3 surj_pair)
  note f = endpointTry_frame [OF t]
  show ?case
  proof (cases st1)
    case (Return r)
    with Cons.prems t f show ?thesis by (auto simp: credit_def split: if_splits)
  next
    case (Throw err)
    show ?thesis
    proof (cases "isRateLimitError (classify env) err")
      case True
      with Throw Cons.prems t f show ?thesis by (auto simp: credit_def split: if_splits)
    next
      case False
      with Throw Cons.prems t have "endpointLoop env isThinking model acc token es (Some err) ro1 w1 = (st, w')"
        by simp
      from Cons.IH [OF this] f show ?thesis by auto
    qed
  next
    case Next
    with Cons.prems t have "endpointLoop env isThinking model acc token es le1 ro1 w1 = (st, w')"
      by simp
    from Cons.IH [OF this] f show ?thesis by auto
  qed
qed

lemma attemptTry_frame:
  "attemptTry env isThinking model acc w = (st, w') \<Longrightarrow>
   calls w' \<le> calls w + length ANTIGRAVITY_ENDPOINT_FALLBACKS + 1 \<and> marks (trace w') = marks (trace w)"
  unfolding attemptTry_def
  by (auto simp: prims credit_def split: prod.splits sum.splits dest!: endpointLoop_frame)

lemma chooseAccount_frame:
  "chooseAccount env model w = (a, w') \<Longrightarrow> calls w' = calls w \<and> marks (trace w') = marks (trace w)"
  unfolding chooseAccount_def
  by (auto simp: prims split: prod.splits option.splits)

lemma noAccounts_frame:
  "noAccounts env model w = (v, w') \<Longrightarrow> calls w' = calls w \<and> marks (trace w') = marks (trace w)"
  unfolding noAccounts_def
  by (auto simp: prims Let_def split: if_splits)

lemma attemptCatch_frame:
  "attemptCatch env model e w = (v, w') \<Longrightarrow> calls w' = calls w \<and> marks (trace w') = marks (trace w)"
  unfolding attemptCatch_def
  by (auto simp: prims split: if_splits prod.splits)

lemma attemptBody_frame:
  "attemptBody env model w = (v, w') \<Longrightarrow>
   calls w' \<le> calls w + perAttempt \<and> marks (trace w') = marks (trace w)"
  unfolding attemptBody_def Let_def perAttempt_def
  by (auto simp: clearExpiredLimitsW_def logA_def
           split: if_splits prod.splits option.splits step.splits
           dest!: noAccounts_frame chooseAccount_frame attemptTry_frame attemptCatch_frame)

lemma attemptLoop_plain:
  "attemptLoop env model False N a w = (out, w') \<Longrightarrow>
   \<exists>k. a \<le> k \<and> k \<le> max a N \<and> marks (trace w') = marks (trace w) @ map Attempt [a..<k]
       \<and> calls w' \<le> calls w + (k - a) * perAttempt"
proof (induction "N - a" arbitrary: a w)
  case 0
  then have "\<not> a < N" by simp
  with "0.prems" have "w' = w"
    by (subst (asm) attemptLoop.simps) simp
  then show ?case by (intro exI [of _ a]) simp
next
  case (Suc n)
  then have lt: "a < N" by simp
  obtain v w1 where b: "attemptBody env model (logA (Attempt a) w) = (v, w1)"
    by (cases "attemptBody env model (logA (Attempt a) w)")
  from attemptBody_frame [OF b]
  have c1: "calls w1 \<le> calls w + perAttempt"
    and m1: "marks (trace w1) = marks (trace w) @ [Attempt a]"
    by (simp_all add: logA_def)
  from Suc.prems lt b
  have step: "(v = AContinue \<and> attemptLoop env model False N (a + 1) w1 = (out, w'))
              \<or> (v \<noteq> AContinue \<and> w' = w1)"
    by (subst (asm) attemptLoop.simps) (auto split: verdict.splits)
  then show ?case
  proof
    assume "v = AContinue \<and> attemptLoop env model False N (a + 1) w1 = (out, w')"
    then have rec: "attemptLoop env model False N (a + 1) w1 = (out, w')" by simp
    from Suc.hyps(2) have "n = N - (a + 1)" by simp
    from Suc.hyps(1) [OF this rec] lt
    obtain k where k: "a + 1 \<le> k" "k \<le> N"
      "marks (trace w') = marks (trace w1) @ map Attempt [a + 1..<k]"
      "calls w' \<le> calls w1 + (k - (a + 1)) * perAttempt"
      by (auto simp: max_def split: if_splits)
    have "[a..<k] = a # [a + 1..<k]"
      using k(1) by (simp add: upt_conv_Cons)
    moreover have "k - a = Suc (k - (a + 1))"
      using k(1) by arith
    then have "(k - a) * perAttempt = perAttempt + (k - (a + 1)) * perAttempt"
      by simp
    ultimately show ?thesis
      using k c1 m1 lt by (intro exI [of _ k]) (simp add: max_def)
  next
    assume "v \<noteq> AContinue \<and> w' = w1"
    with c1 m1 lt show ?thesis
      by (intro exI [of _ "Suc a"]) (simp add: max_def)
  qed
qed

lemma attemptLoop_hop:
  "attemptLoop env fm False (maxAttemptsOf env w1) 0 (logA (Enter fm False) w1) = sendMessage env fm False w1"
  by (simp add: sendMessage_def)

lemma attemptLoop_any:
  "attemptLoop env model fb N a w = (out, w') \<Longrightarrow>
   \<exists>k w1. a \<le> k \<and> k \<le> max a N \<and> marks (trace w1) = marks (trace w) @ map Attempt [a..<k]
       \<and> calls w1 \<le> calls w + (k - a) * perAttempt
       \<and> (w' = w1 \<or> (fb \<and> truthyStr (getFallbackModel env model)
              \<and> sendMessage env (orEmpty (getFallbackModel env model)) False w1 = (out, w')))"
proof (induction "N - a" arbitrary: a w)
  case 0
  then have ge: "\<not> a < N" by simp
  with "0.prems"
  have "w' = w \<or> (fb \<and> truthyStr (getFallbackModel env model)
          \<and> sendMessage env (orEmpty (getFallbackModel env model)) False w = (out, w'))"
    by (subst (asm) attemptLoop.simps) (auto simp: attemptLoop_hop split: if_splits)
  then show ?case by (intro exI [of _ a] exI [of _ w]) simp
next
  case (Suc n)
  then have lt: "a < N" by simp
  obtain v w1 where b: "attemptBody env model (logA (Attempt a) w) = (v, w1)"
    by (cases "attemptBody env model (logA (Attempt a) w)")
  from attemptBody_frame [OF b]
  have c1: "calls w1 \<le> calls w + perAttempt"
    and m1: "marks (trace w1) = marks (trace w) @ [Attempt a]"
    by (simp_all add: logA_def)
  from Suc.prems lt b
  have step: "(v = AContinue \<and> attemptLoop env model fb N (a + 1) w1 = (out, w'))
              \<or> (v \<noteq> AContinue \<and>
                  (w' = w1 \<or> (fb \<and> truthyStr (getFallbackModel env model)
                     \<and> sendMessage env (orEmpty (getFallbackModel env model)) False w1 = (out, w'))))"
    by (subst (asm) attemptLoop.simps) (auto simp: attemptLoop_hop split: verdict.splits if_splits)
  then show ?case
  proof
    assume "v = AContinue \<and> attemptLoop env model fb N (a + 1) w1 = (out, w')"
    then have rec: "attemptLoop env model fb N (a + 1) w1 = (out, w')" by simp
    from Suc.hyps(2) have "n = N - (a + 1)" by simp
    from Suc.hyps(1) [OF this rec] lt
    obtain k w2 where k: "a + 1 \<le> k" "k \<le> N"
      "marks (trace w2) = marks (trace w1) @ map Attempt [a + 1..<k]"
      "calls w2 \<le> calls w1 + (k - (a + 1)) * perAttempt"
      "w' = w2 \<or> (fb \<and> truthyStr (getFallbackModel env model)
          \<and> sendMessage env (orEmpty (getFallbackModel env model)) False w2 = (out, w'))"
      by (auto simp: max_def split: if_splits)
    have "[a..<k] = a # [a + 1..<k]"
      using k(1) by (simp add: upt_conv_Cons)
    moreover have "k - a = Suc (k - (a + 1))"
      using k(1) by arith
    then have "(k - a) * perAttempt = perAttempt + (k - (a + 1)) * perAttempt"
      by simp
    ultimately show ?thesis
      using k c1 m1 lt by (intro exI [of _ k] exI [of _ w2]) (simp add: max_def)
  next
    assume "v \<noteq> AContinue \<and>
            (w' = w1 \<or> (fb \<and> truthyStr (getFallbackModel env model)
               \<and> sendMessage env (orEmpty (getFallbackModel env model)) False w1 = (out, w')))"
    with c1 m1 lt show ?thesis
      by (intro exI [of _ "Suc a"] exI [of _ w1]) (simp add: max_def)
  qed
qed

lemma streamResponse_frame:
  "streamResponse resp w = (st, w') \<Longrightarrow> calls w' = calls w \<and> marks (trace w') = marks (trace w)"
  unfolding streamResponse_def
  by (auto simp: prims split: prod.splits option.splits)

lemma answer429Stream_frame:
  "answer429Stream env model acc url token resp ro w = ((st, ro'), w') \<Longrightarrow>
   calls w' + credit ro' \<le> calls w + credit ro \<and> marks (trace w') = marks (trace w)"
  unfolding answer429Stream_def
  by (auto simp: prims Let_def credit_def split: if_splits prod.splits fetch_result.splits
           dest!: streamResponse_frame)

lemma emptyRetryLoop_frame:
  "emptyRetryLoop env model acc url token resp k w = (st, w') \<Longrightarrow>
   calls w' \<le> calls w + 2 * (MAX_EMPTY_RESPONSE_RETRIES - k) \<and> marks (trace w') = marks (trace w)"
proof (induction env model acc url token resp k w rule: emptyRetryLoop.induct)
  case (1 env model acc url token currentResponse emptyRetries w)
  show ?case
  proof (cases "emptyRetries \<le> MAX_EMPTY_RESPONSE_RETRIES")
    case False
    with "1.prems" show ?thesis
      by (subst (asm) emptyRetryLoop.simps) simp
  next
    case le: True
    obtain s0 w0 where sr: "streamResponse currentResponse w = (s0, w0)"
      by (cases "streamResponse currentResponse w")
    note f0 = streamResponse_frame [OF sr]
    show ?thesis
    proof (cases "\<exists>e. s0 = Throw e \<and> isEmptyResponseError (classify env) e
                       \<and> emptyRetries < MAX_EMPTY_RESPONSE_RETRIES")
      case False
      with "1.prems" le sr f0 show ?thesis
        by (subst (asm) emptyRetryLoop.simps)
           (auto simp: prims split: step.splits if_splits)
    next
      case True
      then obtain e where e: "s0 = Throw e" "isEmptyResponseError (classify env) e"
        "emptyRetries < MAX_EMPTY_RESPONSE_RETRIES" by blast
      obtain r1 w2 where f1: "fetch env url token (sleepW env (500 * 2 ^ emptyRetries) w0) = (r1, w2)"
        by (cases "fetch env url token (sleepW env (500 * 2 ^ emptyRetries) w0)")
      then have c2: "calls w2 = calls w + 1" "marks (trace w2) = marks (trace w)"
        using f0 by (auto simp: prims)
      show ?thesis
      proof (cases r1)
        case (FetchThrows x)
        with "1.prems" le sr e f1 c2 show ?thesis
          by (subst (asm) emptyRetryLoop.simps) auto
      next
        case (Responds retry1)
        show ?thesis
        proof (cases "ok retry1")
          case True
          with "1.prems" le sr e f1 Responds
          have rec: "emptyRetryLoop env model acc url token retry1 (emptyRetries + 1) w2 = (st, w')"
            by (subst (asm) emptyRetryLoop.simps) auto
          from "1.IH"(2) [OF le sr [symmetric] e(1) _ _ f1 [symmetric] Responds _ rec] e True
          show ?thesis using c2 by auto
        next
          case nok: False
          obtain r2 w3 where f2: "fetch env url token (sleepW env 1000 w2) = (r2, w3)"
            by (cases "fetch env url token (sleepW env 1000 w2)")
          then have c3: "calls w3 = calls w + 2" "marks (trace w3) = marks (trace w)"
            using c2 by (auto simp: prims)
          show ?thesis
          proof (cases "status retry1 \<noteq> 429 \<and> status retry1 \<noteq> 401 \<and> status retry1 \<ge> 500
                        \<and> (\<exists>retry2. r2 = Responds retry2 \<and> ok retry2)")
            case False
            with "1.prems" le sr e f1 Responds nok f2 c2 c3 show ?thesis
              by (subst (asm) emptyRetryLoop.simps)
                 (auto simp: prims split: if_splits fetch_result.splits)
          next
            case True
            then obtain retry2 where r2: "r2 = Responds retry2" "ok retry2" by blast
            with "1.prems" le sr e f1 Responds nok f2 True
            have rec: "emptyRetryLoop env model acc url token retry2 (emptyRetries + 1) w3 = (st, w')"
              by (subst (asm) emptyRetryLoop.simps) auto
            from "1.IH"(1) [OF le sr [symmetric] e(1) _ _ f1 [symmetric] Responds _ _ _ _ f2 [symmetric] r2(1) r2(2) rec]
              e nok True
            show ?thesis using c3 by auto
          qed
        qed
      qed
    qed
  qed
qed

lemma endpointTryStream_frame:
  "endpointTryStream env model acc token endpoint le ro w = ((st, le', ro'), w') \<Longrightarrow>
   calls w' \<le> calls w + (1 + 2 * MAX_EMPTY_RESPONSE_RETRIES) \<and> marks (trace w') = marks (trace w)"
  unfolding endpointTryStream_def
  by (auto simp: prims Let_def credit_def MAX_EMPTY_RESPONSE_RETRIES_def
           split: if_splits prod.splits fetch_result.splits
           dest!: answer429Stream_frame emptyRetryLoop_frame)

lemma endpointLoopStream_frame:
  "endpointLoopStream env model acc token es le ro w = (st, w') \<Longrightarrow>
   calls w' \<le> calls w + (1 + 2 * MAX_EMPTY_RESPONSE_RETRIES) * length es
   \<and> marks (trace w') = marks (trace w)"
proof (induction es arbitrary: le ro w)
  case Nil
  then show ?case by (auto dest: afterEndpoints_frame)
next
  case (Cons e es)
  obtain st1 le1 ro1 w1 where t: "endpointTryStream env model acc token e le ro w = ((st1, le1, ro1), w1)"
    by (metis prod_cases3 surj_pair)
  note f = endpointTryStream_frame [OF t]
  from Cons.prems t
  have "w' = w1 \<or> (\<exists>le2. endpointLoopStream env model acc token es le2 ro1 w1 = (st, w'))"
    by (auto split: step.splits if_splits)
  then show ?case
  proof
    assume "w' = w1"
    with f show ?thesis by simp
  next
    assume "\<exists>le2. endpointLoopStream env model acc token es le2 ro1 w1 = (st, w')"
    then obtain le2 where "endpointLoopStream env model acc token es le2 ro1 w1 = (st, w')" ..
    from Cons.IH [OF this] f show ?thesis by simp
  qed
qed

lemma attemptTryStream_frame:
  "attemptTryStream env model acc w = (st, w') \<Longrightarrow>
   calls w' \<le> calls w + perAttemptStream \<and> marks (trace w') = marks (trace w)"
  unfolding attemptTryStream_def perAttemptStream_def
  by (auto simp: prims split: prod.splits sum.splits dest!: endpointLoopStream_frame)

lemma attemptBodyStream_frame:
  "attemptBodyStream env model w = (v, w') \<Longrightarrow>
   calls w' \<le> calls w + perAttemptStream \<and> marks (trace w') = marks (trace w)"
  unfolding attemptBodyStream_def Let_def
  by (auto simp: clearExpiredLimitsW_def logA_def
           split: if_splits prod.splits option.splits step.splits
           dest!: noAccounts_frame chooseAccount_frame attemptTryStream_frame attemptCatch_frame)

lemma attemptLoopStream_plain:
  "attemptLoopStream env model False N a w = (out, w') \<Longrightarrow>
   \<exists>k. a \<le> k \<and> k \<le> max a N \<and> marks (trace w') = marks (trace w) @ map Attempt [a..<k]
       \<and> calls w' \<le> calls w + (k - a) * perAttemptStream"
proof (induction "N - a" arbitrary: a w)
  case 0
  then have "\<not> a < N" by simp
  with "0.prems" have "w' = w"
    by (subst (asm) attemptLoopStream.simps) simp
  then show ?case by (intro exI [of _ a]) simp
next
  case (Suc n)
  then have lt: "a < N" by simp
  obtain v w1 where b: "attemptBodyStream env model (logA (Attempt a) w) = (v, w1)"
    by (cases "attemptBodyStream env model (logA (Attempt a) w)")
  from attemptBodyStream_frame [OF b]
  have c1: "calls w1 \<le> calls w + perAttemptStream"
    and m1: "marks (trace w1) = marks (trace w) @ [Attempt a]"
    by (simp_all add: logA_def)
  from Suc.prems lt b
  have step: "(v = AContinue \<and> attemptLoopStream env model False N (a + 1) w1 = (out, w'))
              \<or> (v \<noteq> AContinue \<and> w' = w1)"
    by (subst (asm) attemptLoopStream.simps) (auto split: verdict.splits)
  then show ?case
  proof
    assume "v = AContinue \<and> attemptLoopStream env model False N (a + 1) w1 = (out, w')"
    then have rec: "attemptLoopStream env model False N (a + 1) w1 = (out, w')" by simp
    from Suc.hyps(2) have "n = N - (a + 1)" by simp
    from Suc.hyps(1) [OF this rec] lt
    obtain k where k: "a + 1 \<le> k" "k \<le> N"
      "marks (trace w') = marks (trace w1) @ map Attempt [a + 1..<k]"
      "calls w' \<le> calls w1 + (k - (a + 1)) * perAttemptStream"
      by (auto simp: max_def split: if_splits)
    have "[a..<k] = a # [a + 1..<k]"
      using k(1) by (simp add: upt_conv_Cons)
    moreover have "k - a = Suc (k - (a + 1))"
      using k(1) by arith
    then have "(k - a) * perAttemptStream = perAttemptStream + (k - (a + 1)) * perAttemptStream"
      by simp
    ultimately show ?thesis
      using k c1 m1 lt by (intro exI [of _ k]) (simp add: max_def)
  next
    assume "v \<noteq> AContinue \<and> w' = w1"
    with c1 m1 lt show ?thesis
      by (intro exI [of _ "Suc a"]) (simp add: max_def)
  qed
qed

lemma attemptLoopStream_hop:
  "attemptLoopStream env fm False (maxAttemptsOf env w1) 0 (logA (Enter fm False) w1) = sendMessageStream env fm False w1"
  by (simp add: sendMessageStream_def)

lemma attemptLoopStream_any:
  "attemptLoopStream env model fb N a w = (out, w') \<Longrightarrow>
   \<exists>k w1. a \<le> k \<and> k \<le> max a N \<and> marks (trace w1) = marks (trace w) @ map Attempt [a..<k]
       \<and> calls w1 \<le> calls w + (k - a) * perAttemptStream
       \<and> (w' = w1 \<or> (fb \<and> truthyStr (getFallbackModel env model)
              \<and> sendMessageStream env (orEmpty (getFallbackModel env model)) False w1 = (out, w')))"
proof (induction "N - a" arbitrary: a w)
  case 0
  then have ge: "\<not> a < N" by simp
  with "0.prems"
  have "w' = w \<or> (fb \<and> truthyStr (getFallbackModel env model)
          \<and> sendMessageStream env (orEmpty (getFallbackModel env model)) False w = (out, w'))"
    by (subst (asm) attemptLoopStream.simps) (auto simp: attemptLoopStream_hop split: if_splits)
  then show ?case by (intro exI [of _ a] exI [of _ w]) simp
next
  case (Suc n)
  then have lt: "a < N" by simp
  obtain v w1 where b: "attemptBodyStream env model (logA (Attempt a) w) = (v, w1)"
    by (cases "attemptBodyStream env model (logA (Attempt a) w)")
  from attemptBodyStream_frame [OF b]
  have c1: "calls w1 \<le> calls w + perAttemptStream"
    and m1: "marks (trace w1) = marks (trace w) @ [Attempt a]"
    by (simp_all add: logA_def)
  from Suc.prems lt b
  have step: "(v = AContinue \<and> attemptLoopStream env model fb N (a + 1) w1 = (out, w'))
              \<or> (v \<noteq> AContinue \<and>
                  (w' = w1 \<or> (fb \<and> truthyStr (getFallbackModel env model)
                     \<and> sendMessageStream env (orEmpty (getFallbackModel env model)) False w1 = (out, w'))))"
    by (subst (asm) attemptLoopStream.simps) (auto simp: attemptLoopStream_hop split: verdict.splits if_splits)
  then show ?case
  proof
    assume "v = AContinue \<and> attemptLoopStream env model fb N (a + 1) w1 = (out, w')"
    then have rec: "attemptLoopStream env model fb N (a + 1) w1 = (out, w')" by simp
    from Suc.hyps(2) have "n = N - (a + 1)" by simp
    from Suc.hyps(1) [OF this rec] lt
    obtain k w2 where k: "a + 1 \<le> k" "k \<le> N"
      "marks (trace w2) = marks (trace w1) @ map Attempt [a + 1..<k]"
      "calls w2 \<le> calls w1 + (k - (a + 1)) * perAttemptStream"
      "w' = w2 \<or> (fb \<and> truthyStr (getFallbackModel env model)
          \<and> sendMessageStream env (orEmpty (getFallbackModel env model)) False w2 = (out, w'))"
      by (auto simp: max_def split: if_splits)
    have "[a..<k] = a # [a + 1..<k]"
      using k(1) by (simp add: upt_conv_Cons)
    moreover have "k - a = Suc (k - (a + 1))"
      using k(1) by arith
    then have "(k - a) * perAttemptStream = perAttemptStream + (k - (a + 1)) * perAttemptStream"
      by simp
    ultimately show ?thesis
      using k c1 m1 lt by (intro exI [of _ k] exI [of _ w2]) (simp add: max_def)
  next
    assume "v \<noteq> AContinue \<and>
            (w' = w1 \<or> (fb \<and> truthyStr (getFallbackModel env model)
               \<and> sendMessageStream env (orEmpty (getFallbackModel env model)) False w1 = (out, w')))"
    with c1 m1 lt show ?thesis
      by (intro exI [of _ "Suc a"] exI [of _ w1]) (simp add: max_def)
  qed
qed

subsection \<open>The rounds and the upstream calls of a request\<close>

lemma enters_marks: "enters tr = filter isEnter (marks tr)"
proof -
  have "\<And>a. (isMark a \<and> isEnter a) = isEnter a"
    by (case_tac a) auto
  then show ?thesis by (simp add: enters_def marks_def)
qed

lemma enters_Attempts [simp]: "filter isEnter (map Attempt ns) = []"
  by (induction ns) auto

lemma sendMessage_split:
  "\<exists>k w1. k \<le> maxAttemptsOf env w
      \<and> marks (trace w1) = marks (trace w) @ Enter model fb # map Attempt [0..<k]
      \<and> calls w1 \<le> calls w + k * perAttempt
      \<and> (snd (sendMessage env model fb w) = w1
          \<or> (fb \<and> truthyStr (getFallbackModel env model)
              \<and> sendMessage env (orEmpty (getFallbackModel env model)) False w1
                  = sendMessage env model fb w))"
proof -
  obtain out w' where r: "sendMessage env model fb w = (out, w')"
    by (cases "sendMessage env model fb w")
  then have "attemptLoop env model fb (maxAttemptsOf env w) 0 (logA (Enter model fb) w) = (out, w')"
    by (simp add: sendMessage_def)
  from attemptLoop_any [OF this] r show ?thesis
    by (auto simp: logA_def)
qed

lemma sendMessage_plain:
  "\<exists>k. k \<le> maxAttemptsOf env w
      \<and> marks (trace (snd (sendMessage env model False w)))
          = marks (trace w) @ Enter model False # map Attempt [0..<k]
      \<and> calls (snd (sendMessage env model False w)) \<le> calls w + k * perAttempt"
  using sendMessage_split [of env w model False] by auto

lemma sendMessageStream_split:
  "\<exists>k w1. k \<le> maxAttemptsOf env w
      \<and> marks (trace w1) = marks (trace w) @ Enter model fb # map Attempt [0..<k]
      \<and> calls w1 \<le> calls w + k * perAttemptStream
      \<and> (snd (sendMessageStream env model fb w) = w1
          \<or> (fb \<and> truthyStr (getFallbackModel env model)
              \<and> sendMessageStream env (orEmpty (getFallbackModel env model)) False w1
                  = sendMessageStream env model fb w))"
proof -
  obtain out w' where r: "sendMessageStream env model fb w = (out, w')"
    by (cases "sendMessageStream env model fb w")
  then have "attemptLoopStream env model fb (maxAttemptsOf env w) 0 (logA (Enter model fb) w) = (out, w')"
    by (simp add: sendMessageStream_def)
  from attemptLoopStream_any [OF this] r show ?thesis
    by (auto simp: logA_def)
qed

lemma sendMessageStream_plain:
  "\<exists>k. k \<le> maxAttemptsOf env w
      \<and> marks (trace (snd (sendMessageStream env model False w)))
          = marks (trace w) @ Enter model False # map Attempt [0..<k]
      \<and> calls (snd (sendMessageStream env model False w)) \<le> calls w + k * perAttemptStream"
  using sendMessageStream_split [of env w model False] by auto








text \<open>
  Claim C6. The invocations of a request are the original one, and at most one more:
  that one only when fallback is enabled and the model has a fallback model, for that
  model and with fallback disabled.
\<close>

theorem fallback_once:
  "(enters (trace (snd (sendMessage env model fb w))) = enters (trace w) @ [Enter model fb]
    \<or> (fb \<and> truthyStr (getFallbackModel env model)
        \<and> enters (trace (snd (sendMessage env model fb w)))
            = enters (trace w) @ [Enter model True, Enter (orEmpty (getFallbackModel env model)) False]))
   \<and> (enters (trace (snd (sendMessageStream env model fb w))) = enters (trace w) @ [Enter model fb]
    \<or> (fb \<and> truthyStr (getFallbackModel env model)
        \<and> enters (trace (snd (sendMessageStream env model fb w)))
            = enters (trace w) @ [Enter model True, Enter (orEmpty (getFallbackModel env model)) False]))"
proof
  obtain k w1 where s: "marks (trace w1) = marks (trace w) @ Enter model fb # map Attempt [0..<k]"
    "snd (sendMessage env model fb w) = w1
     \<or> (fb \<and> truthyStr (getFallbackModel env model)
        \<and> sendMessage env (orEmpty (getFallbackModel env model)) False w1 = sendMessage env model fb w)"
    using sendMessage_split [of env w model fb] by blast
  from s(1) have e1: "enters (trace w1) = enters (trace w) @ [Enter model fb]"
    by (simp add: enters_marks)
  from s(2) show "enters (trace (snd (sendMessage env model fb w))) = enters (trace w) @ [Enter model fb]
    \<or> (fb \<and> truthyStr (getFallbackModel env model)
        \<and> enters (trace (snd (sendMessage env model fb w)))
            = enters (trace w) @ [Enter model True, Enter (orEmpty (getFallbackModel env model)) False])"
  proof
    assume "snd (sendMessage env model fb w) = w1"
    with e1 show ?thesis by simp
  next
    assume h: "fb \<and> truthyStr (getFallbackModel env model)
        \<and> sendMessage env (orEmpty (getFallbackModel env model)) False w1 = sendMessage env model fb w"
    obtain k' where "marks (trace (snd (sendMessage env (orEmpty (getFallbackModel env model)) False w1)))
          = marks (trace w1) @ Enter (orEmpty (getFallbackModel env model)) False # map Attempt [0..<k']"
      using sendMessage_plain [of env w1 "orEmpty (getFallbackModel env model)"] by blast
    then have "enters (trace (snd (sendMessage env model fb w)))
          = enters (trace w1) @ [Enter (orEmpty (getFallbackModel env model)) False]"
      using h by (simp add: enters_marks)
    with e1 h show ?thesis by simp
  qed
next
  obtain k w1 where s: "marks (trace w1) = marks (trace w) @ Enter model fb # map Attempt [0..<k]"
    "snd (sendMessageStream env model fb w) = w1
     \<or> (fb \<and> truthyStr (getFallbackModel env model)
        \<and> sendMessageStream env (orEmpty (getFallbackModel env model)) False w1 = sendMessageStream env model fb w)"
    using sendMessageStream_split [of env w model fb] by blast
  from s(1) have e1: "enters (trace w1) = enters (trace w) @ [Enter model fb]"
    by (simp add: enters_marks)
  from s(2) show "enters (trace (snd (sendMessageStream env model fb w))) = enters (trace w) @ [Enter model fb]
    \<or> (fb \<and> truthyStr (getFallbackModel env model)
        \<and> enters (trace (snd (sendMessageStream env model fb w)))
            = enters (trace w) @ [Enter model True, Enter (orEmpty (getFallbackModel env model)) False])"
  proof
    assume "snd (sendMessageStream env model fb w) = w1"
    with e1 show ?thesis by simp
  next
    assume h: "fb \<and> truthyStr (getFallbackModel env model)
        \<and> sendMessageStream env (orEmpty (getFallbackModel env model)) False w1 = sendMessageStream env model fb w"
    obtain k' where "marks (trace (snd (sendMessageStream env (orEmpty (getFallbackModel env model)) False w1)))
          = marks (trace w1) @ Enter (orEmpty (getFallbackModel env model)) False # map Attempt [0..<k']"
      using sendMessageStream_plain [of env w1 "orEmpty (getFallbackModel env model)"] by blast
    then have "enters (trace (snd (sendMessageStream env model fb w)))
          = enters (trace w1) @ [Enter (orEmpty (getFallbackModel env model)) False]"
      using h by (simp add: enters_marks)
    with e1 h show ?thesis by simp
  qed
qed

subsection \<open>Events and upstream calls of a streaming request\<close>

lemma yields_append [simp]: "yields (xs @ ys) = yields xs @ yields ys"
  by (induction xs rule: yields.induct) auto

lemma yields_map_Yield [simp]: "yields (map Yield evs) = evs"
  by (induction evs) auto

lemma quiet_no_fetchAfterYield: "yields pre = [] \<Longrightarrow> \<not> fetchAfterYield (pre @ map Yield evs)"
proof (induction pre rule: yields.induct)
  case 1
  show ?case by (cases evs) (auto simp: list_ex_iff)
qed auto

lemma atomicStream_no_fetchAfterYield: "atomicStream env tr \<Longrightarrow> \<not> fetchAfterYield tr"
  by (auto simp: atomicStream_def quiet_no_fetchAfterYield)

lemma silent_no_fetchAfterYield: "yields tr = [] \<Longrightarrow> \<not> fetchAfterYield tr"
  using quiet_no_fetchAfterYield [of tr "[]"] by simp

lemma atomicStreamI:
  "yields (trace w) = [] \<Longrightarrow> evs \<noteq> []
   \<Longrightarrow> fromUpstream env evs \<or> (\<exists>m. evs = emitEmptyResponseFallback (randomHex env) m)
   \<Longrightarrow> atomicStream env (trace (yieldAll evs w))"
  unfolding atomicStream_def yieldAll_def by auto

lemma streamResponse_atomic:
  assumes "upstream env n = Responds resp" and "wellBehaved env" and "yields (trace w) = []"
    and "streamResponse resp w = (st, w')"
  shows "yields (trace w') = [] \<or> (st = Return () \<and> atomicStream env (trace w'))"
proof (cases "streamSSEResponse resp")
  case (Pair evs err)
  from assms(1,2) have q: "quietRaise resp" by (auto simp: wellBehaved_def)
  show ?thesis
  proof (cases err)
    case None
    with Pair assms(4) have res: "st = Return ()" "w' = yieldAll evs w"
      by (auto simp: streamResponse_def)
    show ?thesis
    proof (cases "evs = []")
      case True
      with res assms(3) show ?thesis by (simp add: yieldAll_def)
    next
      case False
      from None Pair assms(1) have "fromUpstream env evs"
        by (auto simp: fromUpstream_def)
      with False assms(3) have "atomicStream env (trace (yieldAll evs w))"
        by (intro atomicStreamI) auto
      with res show ?thesis by simp
    qed
  next
    case (Some e)
    with Pair q have "evs = []" by (simp add: quietRaise_def)
    with Some Pair assms(3,4) show ?thesis
      by (auto simp: streamResponse_def yieldAll_def)
  qed
qed

lemma answer429Stream_atomic:
  assumes "wellBehaved env" and "yields (trace w) = []"
    and "answer429Stream env model acc url token resp ro w = ((st, ro'), w')"
  shows "yields (trace w') = [] \<or> (st = Return () \<and> atomicStream env (trace w'))"
proof (cases "exceeds (parseResetTime resp) DEFAULT_COOLDOWN_MS \<or> ro")
  case True
  with assms(2,3) show ?thesis
    by (auto simp: answer429Stream_def prims Let_def split: if_splits)
next
  case False
  let ?w0 = "sleepW env (numOr (parseResetTime resp) DEFAULT_COOLDOWN_MS) w"
  obtain r w1 where f: "fetch env url token ?w0 = (r, w1)"
    by (cases "fetch env url token ?w0")
  then have y1: "yields (trace w1) = []" and up: "upstream env (calls ?w0) = r"
    using assms(2) by (auto simp: prims)
  show ?thesis
  proof (cases r)
    case (FetchThrows e)
    with False f y1 assms(3) show ?thesis
      by (auto simp: answer429Stream_def Let_def)
  next
    case (Responds retryResponse)
    show ?thesis
    proof (cases "ok retryResponse")
      case True
      obtain st2 w2 where s: "streamResponse retryResponse w1 = (st2, w2)"
        by (cases "streamResponse retryResponse w1")
      from up Responds have "upstream env (calls ?w0) = Responds retryResponse" by simp
      from streamResponse_atomic [OF this assms(1) y1 s]
      show ?thesis using False f Responds True s assms(3)
        by (auto simp: answer429Stream_def Let_def)
    next
      case nok: False
      with False f Responds y1 assms(3) show ?thesis
        by (auto simp: answer429Stream_def Let_def prims)
    qed
  qed
qed

lemma emptyRetryLoop_atomic:
  "wellBehaved env \<Longrightarrow> \<exists>n. upstream env n = Responds resp \<Longrightarrow> yields (trace w) = []
   \<Longrightarrow> emptyRetryLoop env model acc url token resp k w = (st, w')
   \<Longrightarrow> yields (trace w') = [] \<or> (st = Return () \<and> atomicStream env (trace w'))"
proof (induction env model acc url token resp k w rule: emptyRetryLoop.induct)
  case (1 env model acc url token currentResponse emptyRetries w)
  note wb = "1.prems"(1) and quiet = "1.prems"(3) and run = "1.prems"(4)
  from "1.prems"(2) obtain n where src: "upstream env n = Responds currentResponse" ..
  show ?case
  proof (cases "emptyRetries \<le> MAX_EMPTY_RESPONSE_RETRIES")
    case False
    with run quiet show ?thesis
      by (subst (asm) emptyRetryLoop.simps) simp
  next
    case le: True
    obtain s0 w0 where sr: "streamResponse currentResponse w = (s0, w0)"
      by (cases "streamResponse currentResponse w")
    note p0 = streamResponse_atomic [OF src wb quiet sr]
    show ?thesis
    proof (cases s0)
      case (Return u)
      with run le sr p0 show ?thesis
        by (subst (asm) emptyRetryLoop.simps) auto
    next
      case Next
      with run le sr p0 show ?thesis
        by (subst (asm) emptyRetryLoop.simps) auto
    next
      case (Throw e)
      with p0 have q0: "yields (trace w0) = []" by simp
      show ?thesis
      proof (cases "isEmptyResponseError (classify env) e")
        case False
        with run le sr Throw q0 show ?thesis
          by (subst (asm) emptyRetryLoop.simps) auto
      next
        case empty: True
        show ?thesis
        proof (cases "emptyRetries \<ge> MAX_EMPTY_RESPONSE_RETRIES")
          case True
          with run le sr Throw empty
          have res: "st = Return ()"
            "w' = yieldAll (emitEmptyResponseFallback (randomHex env) model) w0"
            by (subst (asm) emptyRetryLoop.simps, simp)+
          have "atomicStream env (trace (yieldAll (emitEmptyResponseFallback (randomHex env) model) w0))"
            using q0 by (intro atomicStreamI) (auto simp: emitEmptyResponseFallback_def)
          with res show ?thesis by simp
        next
          case more: False
          obtain r1 w2 where f1: "fetch env url token (sleepW env (500 * 2 ^ emptyRetries) w0) = (r1, w2)"
            by (cases "fetch env url token (sleepW env (500 * 2 ^ emptyRetries) w0)")
          then have q2: "yields (trace w2) = []"
            and up1: "upstream env (calls (sleepW env (500 * 2 ^ emptyRetries) w0)) = r1"
            using q0 by (auto simp: prims)
          show ?thesis
          proof (cases r1)
            case (FetchThrows x)
            with run le sr Throw empty more f1 q2 show ?thesis
              by (subst (asm) emptyRetryLoop.simps) auto
          next
            case (Responds retry1)
            with up1 have src1: "\<exists>n. upstream env n = Responds retry1" by blast
            show ?thesis
            proof (cases "ok retry1")
              case True
              with run le sr Throw empty more f1 Responds
              have rec: "emptyRetryLoop env model acc url token retry1 (emptyRetries + 1) w2 = (st, w')"
                by (subst (asm) emptyRetryLoop.simps) auto
              from more have nge: "\<not> MAX_EMPTY_RESPONSE_RETRIES \<le> emptyRetries" by simp
              from "1.IH"(2) [OF le sr [symmetric] Throw _ nge f1 [symmetric] Responds _ wb src1 q2 rec]
                empty True
              show ?thesis by auto
            next
              case nok: False
              obtain r2 w3 where f2: "fetch env url token (sleepW env 1000 w2) = (r2, w3)"
                by (cases "fetch env url token (sleepW env 1000 w2)")
              then have q3: "yields (trace w3) = []"
                and up2: "upstream env (calls (sleepW env 1000 w2)) = r2"
                using q2 by (auto simp: prims)
              show ?thesis
              proof (cases "status retry1 \<noteq> 429 \<and> status retry1 \<noteq> 401 \<and> status retry1 \<ge> 500
                            \<and> (\<exists>retry2. r2 = Responds retry2 \<and> ok retry2)")
                case False
                with run le sr Throw empty more f1 Responds nok f2 q2 q3 show ?thesis
                  by (subst (asm) emptyRetryLoop.simps)
                     (auto simp: prims split: if_splits fetch_result.splits)
              next
                case True
                then obtain retry2 where r2: "r2 = Responds retry2" "ok retry2" by blast
                with up2 have src2: "\<exists>n. upstream env n = Responds retry2" by blast
                from run le sr Throw empty more f1 Responds nok f2 True r2
                have rec: "emptyRetryLoop env model acc url token retry2 (emptyRetries + 1) w3 = (st, w')"
                  by (subst (asm) emptyRetryLoop.simps) auto
                from more have nge: "\<not> MAX_EMPTY_RESPONSE_RETRIES \<le> emptyRetries" by simp
                from "1.IH"(1) [OF le sr [symmetric] Throw _ nge f1 [symmetric] Responds _ _ _ _
                                   f2 [symmetric] r2(1) r2(2) wb src2 q3 rec]
                  empty nok True
                show ?thesis by auto
              qed
            qed
          qed
        qed
      qed
    qed
  qed
qed

lemma endpointTryStream_atomic:
  assumes "wellBehaved env" and "yields (trace w) = []"
    and "endpointTryStream env model acc token endpoint le ro w = ((st, le', ro'), w')"
  shows "yields (trace w') = [] \<or> (st = Return () \<and> atomicStream env (trace w'))"
proof -
  let ?url = "endpoint @ ''/v1internal:streamGenerateContent?alt=sse''"
  obtain r w1 where f: "fetch env ?url token w = (r, w1)"
    by (cases "fetch env ?url token w")
  then have q1: "yields (trace w1) = []" and up: "upstream env (calls w) = r"
    using assms(2) by (auto simp: prims)
  show ?thesis
  proof (cases r)
    case (FetchThrows e)
    with f q1 assms(3) show ?thesis
      by (auto simp: endpointTryStream_def Let_def)
  next
    case (Responds resp)
    show ?thesis
    proof (cases "ok resp")
      case True
      obtain st2 w2 where l: "emptyRetryLoop env model acc ?url token resp 0 w1 = (st2, w2)"
        by (cases "emptyRetryLoop env model acc ?url token resp 0 w1")
      from up Responds have "\<exists>n. upstream env n = Responds resp" by blast
      from emptyRetryLoop_atomic [OF assms(1) this q1 l]
      show ?thesis using f Responds True l assms(3)
        by (auto simp: endpointTryStream_def Let_def)
    next
      case nok: False
      show ?thesis
      proof (cases "status resp = 429")
        case True
        obtain st2 ro2 w2 where a: "answer429Stream env model acc ?url token resp ro w1 = ((st2, ro2), w2)"
          by (metis surj_pair)
        from answer429Stream_atomic [OF assms(1) q1 a]
        show ?thesis using f Responds nok True a assms(3)
          by (auto simp: endpointTryStream_def Let_def)
      next
        case False
        with f Responds nok q1 assms(3) show ?thesis
          by (auto simp: endpointTryStream_def Let_def prims split: if_splits)
      qed
    qed
  qed
qed

lemma afterEndpoints_silent:
  "yields (trace w) = [] \<Longrightarrow> afterEndpoints env model acc le w = (st, w') \<Longrightarrow> yields (trace w') = []"
  by (auto simp: afterEndpoints_def prims split: option.splits if_splits)

lemma endpointLoopStream_atomic:
  "wellBehaved env \<Longrightarrow> yields (trace w) = []
   \<Longrightarrow> endpointLoopStream env model acc token es le ro w = (st, w')
   \<Longrightarrow> yields (trace w') = [] \<or> (st = Return () \<and> atomicStream env (trace w'))"
proof (induction es arbitrary: le ro w)
  case Nil
  then show ?case by (auto dest: afterEndpoints_silent)
next
  case (Cons e es)
  obtain st1 le1 ro1 w1 where t: "endpointTryStream env model acc token e le ro w = ((st1, le1, ro1), w1)"
    by (metis prod_cases3 surj_pair)
  note p = endpointTryStream_atomic [OF Cons.prems(1,2) t]
  from Cons.prems(3) t
  have "(st = st1 \<and> w' = w1)
        \<or> (st1 \<noteq> Return () \<and> (\<exists>le2. endpointLoopStream env model acc token es le2 ro1 w1 = (st, w')))"
    by (auto split: step.splits if_splits)
  then show ?case
  proof
    assume "st = st1 \<and> w' = w1"
    with p show ?thesis by simp
  next
    assume "st1 \<noteq> Return () \<and> (\<exists>le2. endpointLoopStream env model acc token es le2 ro1 w1 = (st, w'))"
    then obtain le2 where n: "st1 \<noteq> Return ()"
      and rec: "endpointLoopStream env model acc token es le2 ro1 w1 = (st, w')" by blast
    from p n have "yields (trace w1) = []" by simp
    from Cons.IH [OF Cons.prems(1) this rec] show ?thesis .
  qed
qed

lemma attemptTryStream_atomic:
  assumes "wellBehaved env" and "yields (trace w) = []"
    and "attemptTryStream env model acc w = (st, w')"
  shows "yields (trace w') = [] \<or> (st = Return () \<and> atomicStream env (trace w'))"
  using assms(2,3) unfolding attemptTryStream_def
  by (auto simp: prims split: prod.splits sum.splits
           dest!: endpointLoopStream_atomic [OF assms(1), rotated])

lemma chooseAccount_silent:
  "yields (trace w) = [] \<Longrightarrow> chooseAccount env model w = (a, w') \<Longrightarrow> yields (trace w') = []"
  by (auto simp: chooseAccount_def prims split: prod.splits option.splits)

lemma noAccounts_silent:
  "yields (trace w) = [] \<Longrightarrow> noAccounts env model w = (v, w') \<Longrightarrow> yields (trace w') = []"
  by (auto simp: noAccounts_def prims Let_def split: if_splits)

lemma attemptCatch_silent:
  "yields (trace w) = [] \<Longrightarrow> attemptCatch env model e w = (v, w') \<Longrightarrow> yields (trace w') = []"
  by (auto simp: attemptCatch_def prims split: if_splits prod.splits)

lemma attemptBodyStream_atomic:
  assumes "wellBehaved env" and "yields (trace w) = []"
    and "attemptBodyStream env model w = (v, w')"
  shows "yields (trace w') = [] \<or> (v = AReturn () \<and> atomicStream env (trace w'))"
proof -
  let ?w1 = "clearExpiredLimitsW env w"
  have q1: "yields (trace ?w1) = []" using assms(2) by (simp add: prims)
  show ?thesis
  proof (cases "getAvailableAccounts (manager env) model (am ?w1) = []")
    case True
    with assms(3) have "noAccounts env model ?w1 = (v, w')"
      by (simp add: attemptBodyStream_def Let_def)
    from noAccounts_silent [OF q1 this] show ?thesis by simp
  next
    case False
    obtain a w2 where c: "chooseAccount env model ?w1 = (a, w2)"
      by (cases "chooseAccount env model ?w1")
    note q2 = chooseAccount_silent [OF q1 c]
    show ?thesis
    proof (cases a)
      case None
      with False c q2 assms(3) show ?thesis
        by (auto simp: attemptBodyStream_def Let_def)
    next
      case (Some acc)
      obtain st w3 where t: "attemptTryStream env model acc w2 = (st, w3)"
        by (cases "attemptTryStream env model acc w2")
      note p = attemptTryStream_atomic [OF assms(1) q2 t]
      show ?thesis
      proof (cases st)
        case (Throw e)
        with p have "yields (trace w3) = []" by simp
        moreover from Throw False c Some t assms(3) have "attemptCatch env model e w3 = (v, w')"
          by (simp add: attemptBodyStream_def Let_def)
        ultimately show ?thesis by (auto dest: attemptCatch_silent)
      qed (use p False c Some t assms(3) in \<open>auto simp: attemptBodyStream_def Let_def\<close>)
    qed
  qed
qed

lemma attemptLoopStream_atomic:
  "wellBehaved env \<Longrightarrow> yields (trace w) = []
   \<Longrightarrow> attemptLoopStream env model fb N a w = (out, w')
   \<Longrightarrow> yields (trace w') = [] \<or> (out = Returned () \<and> atomicStream env (trace w'))"
proof (induction env model fb N a w rule: attemptLoopStream.induct)
  case (1 env model fb N a w)
  note wb = "1.prems"(1) and quiet = "1.prems"(2) and run = "1.prems"(3)
  let ?fm = "orEmpty (getFallbackModel env model)"
  show ?case
  proof (cases "a < N")
    case False
    show ?thesis
    proof (cases "fb \<and> truthyStr (getFallbackModel env model)")
      case True
      with run False
      have rec: "attemptLoopStream env ?fm False (maxAttemptsOf env w) 0 (logA (Enter ?fm False) w) = (out, w')"
        by (subst (asm) attemptLoopStream.simps) simp
      have "yields (trace (logA (Enter ?fm False) w)) = []"
        using quiet by (simp add: logA_def)
      from "1.IH"(3) [OF False True wb this rec] show ?thesis .
    next
      case nofb: False
      with run False quiet show ?thesis
        by (subst (asm) attemptLoopStream.simps) auto
    qed
  next
    case lt: True
    obtain v w1 where b: "attemptBodyStream env model (logA (Attempt a) w) = (v, w1)"
      by (cases "attemptBodyStream env model (logA (Attempt a) w)")
    have "yields (trace (logA (Attempt a) w)) = []"
      using quiet by (simp add: logA_def)
    note p = attemptBodyStream_atomic [OF wb this b]
    show ?thesis
    proof (cases v)
      case (AReturn u)
      with run lt b p show ?thesis
        by (subst (asm) attemptLoopStream.simps) auto
    next
      case (AThrow e)
      with run lt b p show ?thesis
        by (subst (asm) attemptLoopStream.simps) auto
    next
      case AContinue
      with run lt b
      have rec: "attemptLoopStream env model fb N (a + 1) w1 = (out, w')"
        by (subst (asm) attemptLoopStream.simps) simp
      from p AContinue have "yields (trace w1) = []" by simp
      from "1.IH"(1) [OF lt b [symmetric] AContinue wb this rec] show ?thesis .
    next
      case (AExhausted mw rt)
      with p have q1: "yields (trace w1) = []" by simp
      show ?thesis
      proof (cases "fb \<and> truthyStr (getFallbackModel env model)")
        case True
        with run lt b AExhausted
        have rec: "attemptLoopStream env ?fm False (maxAttemptsOf env w1) 0 (logA (Enter ?fm False) w1) = (out, w')"
          by (subst (asm) attemptLoopStream.simps) simp
        have "yields (trace (logA (Enter ?fm False) w1)) = []"
          using q1 by (simp add: logA_def)
        from "1.IH"(2) [OF lt b [symmetric] AExhausted True wb this rec] show ?thesis .
      next
        case False
        with run lt b AExhausted q1 show ?thesis
          by (subst (asm) attemptLoopStream.simps) auto
      qed
    qed
  qed
qed

text \<open>
  Claim C2, as the code has it. If the stream adapter throws only before it has
  yielded anything, then a streaming request either yields nothing, or it returns
  normally and its events are the last thing in its trace and come from one source
  (one answer of the upstream streamed to its end, or the synthetic empty-response
  message); in both cases no upstream call follows an event.
\<close>

theorem stream_atomic:
  assumes "wellBehaved env" and "yields (trace w) = []"
  shows "(yields (trace (snd (sendMessageStream env model fb w))) = []
          \<or> (fst (sendMessageStream env model fb w) = Returned ()
              \<and> atomicStream env (trace (snd (sendMessageStream env model fb w)))))
         \<and> \<not> fetchAfterYield (trace (snd (sendMessageStream env model fb w)))"
proof -
  obtain out w' where r: "sendMessageStream env model fb w = (out, w')"
    by (cases "sendMessageStream env model fb w")
  then have run: "attemptLoopStream env model fb (maxAttemptsOf env w) 0 (logA (Enter model fb) w) = (out, w')"
    by (simp add: sendMessageStream_def)
  have "yields (trace (logA (Enter model fb) w)) = []"
    using assms(2) by (simp add: logA_def)
  from attemptLoopStream_atomic [OF assms(1) this run]
  have "yields (trace w') = [] \<or> (out = Returned () \<and> atomicStream env (trace w'))" .
  then show ?thesis
    using r by (auto dest: silent_no_fetchAfterYield atomicStream_no_fetchAfterYield)
qed

subsection \<open>The route of a request\<close>

lemma extends_refl [simp]: "extends sse w w"
  by (simp add: extends_def)

lemma extends_trans: "extends sse w w1 \<Longrightarrow> extends sse w1 w2 \<Longrightarrow> extends sse w w2"
  unfolding extends_def by (metis append.assoc list_all_append)

lemma extends_am [simp]: "extends sse w (w'\<lparr>am := s\<rparr>) = extends sse w w'"
  "extends sse (w\<lparr>am := s\<rparr>) w' = extends sse w w'"
  "extends sse w (w'\<lparr>calls := n\<rparr>) = extends sse w w'"
  "extends sse (w\<lparr>calls := n\<rparr>) w' = extends sse w w'"
  by (simp_all add: extends_def)

lemma extends_logI: "routed sse a \<Longrightarrow> extends sse w w' \<Longrightarrow> extends sse w (logA a w')"
  unfolding extends_def logA_def by auto

lemma routed_url:
  "routed sse (Fetch (endpoint @ (if sse then ''/v1internal:streamGenerateContent?alt=sse''
                                   else ''/v1internal:generateContent'')) token)"
  by (simp add: suffix_def)

lemma processResponse_parsed:
  "processResponse sse resp = Return d \<Longrightarrow>
   (if sse then parseThinkingSSEResponse resp else convertGoogleToAnthropic resp) = Inr d"
  by (auto simp: processResponse_def split: if_splits sum.splits)

lemma answer429_routed:
  "routed sse (Fetch url token) \<Longrightarrow>
   answer429 env sse model acc url token resp ro w = ((st, ro'), w') \<Longrightarrow>
   extends sse w w' \<and> (\<forall>d. st = Return d \<longrightarrow> parsedBy sse env d)"
  unfolding answer429_def parsedBy_def extends_def
  by (auto simp: prims Let_def split: if_splits prod.splits fetch_result.splits
           dest!: processResponse_parsed)
     blast+


lemma endpointTry_routed:
  "endpointTry env sse model acc token endpoint le ro w = ((st, le', ro'), w') \<Longrightarrow>
   extends sse w w' \<and> (\<forall>d. st = Return d \<longrightarrow> parsedBy sse env d)"
proof -
  assume run: "endpointTry env sse model acc token endpoint le ro w = ((st, le', ro'), w')"
  let ?url = "endpoint @ (if sse then ''/v1internal:streamGenerateContent?alt=sse''
                          else ''/v1internal:generateContent'')"
  let ?w1 = "logA (Fetch ?url token) (w\<lparr>calls := calls w + 1\<rparr>)"
  have f: "fetch env ?url token w = (upstream env (calls w), ?w1)"
    by (simp add: fetch_def)
  have e1: "extends sse w ?w1"
    unfolding extends_def logA_def using routed_url [of sse endpoint token] by simp
  show ?thesis
  proof (cases "upstream env (calls w)")
    case (FetchThrows e)
    with run f e1 show ?thesis by (auto simp: endpointTry_def Let_def)
  next
    case (Responds resp)
    have parsed: "parsedBy sse env d" if "processResponse sse resp = Return d" for d
      using processResponse_parsed [OF that] Responds unfolding parsedBy_def by blast
    show ?thesis
    proof (cases "\<not> ok resp \<and> status resp = 429")
      case True
      obtain st2 ro2 w2 where a: "answer429 env sse model acc ?url token resp ro ?w1 = ((st2, ro2), w2)"
        by (metis surj_pair)
      from answer429_routed [OF routed_url a]
      have "extends sse ?w1 w2" "\<forall>d. st2 = Return d \<longrightarrow> parsedBy sse env d" by simp_all
      moreover from run f Responds True a have "st = st2" "w' = w2"
        by (simp_all add: endpointTry_def Let_def)
      ultimately show ?thesis using e1 by (auto intro: extends_trans)
    next
      case False
      have e401: "extends sse w (clearProjectCacheW env (email acc) (clearTokenCacheW env (email acc) ?w1))"
        using e1 by (auto simp: clearProjectCacheW_def clearTokenCacheW_def intro!: extends_logI)
      have e5: "extends sse w (sleepW env 1000 ?w1)"
        using e1 by (auto simp: sleepW_def intro!: extends_logI)
      consider (good) "ok resp"
        | (low) "\<not> ok resp" "status resp \<noteq> 401" "status resp \<noteq> 429" "\<not> status resp \<ge> 400"
        | (auth) "\<not> ok resp" "status resp = 401"
        | (client) "\<not> ok resp" "status resp \<noteq> 401" "status resp \<noteq> 429" "status resp \<ge> 400"
            "\<not> status resp \<ge> 500"
        | (server) "\<not> ok resp" "status resp \<noteq> 401" "status resp \<noteq> 429" "status resp \<ge> 500"
        using False by fastforce
      then show ?thesis
      proof cases
        case good
        with run f Responds have "st = processResponse sse resp" "w' = ?w1"
          by (simp_all add: endpointTry_def Let_def)
        with e1 parsed show ?thesis by auto
      next
        case low
        with run f Responds have "st = processResponse sse resp" "w' = ?w1"
          by (simp_all add: endpointTry_def Let_def)
        with e1 parsed show ?thesis by auto
      next
        case auth
        with run f Responds have "st = Next"
          "w' = clearProjectCacheW env (email acc) (clearTokenCacheW env (email acc) ?w1)"
          by (simp_all add: endpointTry_def Let_def)
        with e401 show ?thesis by simp
      next
        case client
        with run f Responds have "st = Next" "w' = ?w1"
          by (simp_all add: endpointTry_def Let_def)
        with e1 show ?thesis by simp
      next
        case server
        then have "status resp \<ge> 400" by simp
        with server run f Responds have "st = Next" "w' = sleepW env 1000 ?w1"
          by (simp_all add: endpointTry_def Let_def)
        with e5 show ?thesis by simp
      qed
    qed
  qed
qed

lemma afterEndpoints_routed:
  "afterEndpoints env model acc le w = (st, w') \<Longrightarrow> extends sse w w' \<and> (\<forall>d. st \<noteq> Return d)"
  unfolding afterEndpoints_def extends_def
  by (auto simp: prims split: option.splits if_splits)

lemma endpointLoop_routed:
  "endpointLoop env sse model acc token es le ro w = (st, w') \<Longrightarrow>
   extends sse w w' \<and> (\<forall>d. st = Return d \<longrightarrow> parsedBy sse env d)"
proof (induction es arbitrary: le ro w)
  case Nil
  then show ?case by (auto dest: afterEndpoints_routed)
next
  case (Cons e es)
  obtain st1 le1 ro1 w1 where t: "endpointTry env sse model acc token e le ro w = ((st1, le1, ro1), w1)"
    by (metis prod_cases3 surj_pair)
  note f = endpointTry_routed [OF t]
  show ?case
  proof (cases st1)
    case (Return r)
    with Cons.prems t f show ?thesis by auto
  next
    case (Throw err)
    show ?thesis
    proof (cases "isRateLimitError (classify env) err")
      case True
      with Throw Cons.prems t f show ?thesis by auto
    next
      case False
      with Throw Cons.prems t have "endpointLoop env sse model acc token es (Some err) ro1 w1 = (st, w')"
        by simp
      from Cons.IH [OF this] f show ?thesis by (auto intro: extends_trans)
    qed
  next
    case Next
    with Cons.prems t have "endpointLoop env sse model acc token es le1 ro1 w1 = (st, w')"
      by simp
    from Cons.IH [OF this] f show ?thesis by (auto intro: extends_trans)
  qed
qed

lemma attemptTry_routed:
  "attemptTry env sse model acc w = (st, w') \<Longrightarrow>
   extends sse w w' \<and> (\<forall>d. st = Return d \<longrightarrow> parsedBy sse env d)"
  unfolding attemptTry_def
  by (auto simp: getTokenForAccountW_def getProjectForAccountW_def
           split: prod.splits sum.splits dest!: endpointLoop_routed)

lemma chooseAccount_routed:
  "chooseAccount env model w = (a, w') \<Longrightarrow> extends sse w w'"
  unfolding chooseAccount_def extends_def
  by (auto simp: prims split: prod.splits option.splits)

lemma noAccounts_routed:
  "noAccounts env model w = (v, w') \<Longrightarrow> extends sse w w' \<and> (\<forall>d. v \<noteq> AReturn d)"
  unfolding noAccounts_def extends_def
  by (auto simp: prims Let_def split: if_splits)

lemma attemptCatch_routed:
  "attemptCatch env model e w = (v, w') \<Longrightarrow> extends sse w w' \<and> (\<forall>d. v \<noteq> AReturn d)"
  unfolding attemptCatch_def extends_def
  by (auto simp: prims split: if_splits prod.splits)

lemma attemptBody_routed:
  "attemptBody env model w = (v, w') \<Longrightarrow>
   extends (isThinkingModel (Some model)) w w'
   \<and> (\<forall>d. v = AReturn d \<longrightarrow> parsedBy (isThinkingModel (Some model)) env d)"
proof -
  assume run: "attemptBody env model w = (v, w')"
  let ?T = "isThinkingModel (Some model)"
  let ?w1 = "clearExpiredLimitsW env w"
  have e1: "extends ?T w ?w1"
    by (simp add: extends_def clearExpiredLimitsW_def logA_def)
  show ?thesis
  proof (cases "getAvailableAccounts (manager env) model (am ?w1) = []")
    case True
    with run have "noAccounts env model ?w1 = (v, w')"
      by (simp add: attemptBody_def Let_def)
    from noAccounts_routed [OF this, of ?T] e1 show ?thesis
      by (auto intro: extends_trans)
  next
    case False
    obtain a w2 where c: "chooseAccount env model ?w1 = (a, w2)"
      by (cases "chooseAccount env model ?w1")
    from chooseAccount_routed [OF c, of ?T] e1 have e2: "extends ?T w w2"
      by (auto intro: extends_trans)
    show ?thesis
    proof (cases a)
      case None
      with run False c e2 show ?thesis
        by (auto simp: attemptBody_def Let_def)
    next
      case (Some acc)
      obtain st w3 where t: "attemptTry env ?T model acc w2 = (st, w3)"
        by (cases "attemptTry env ?T model acc w2")
      from attemptTry_routed [OF t] e2
      have e3: "extends ?T w w3" and p3: "\<forall>d. st = Return d \<longrightarrow> parsedBy ?T env d"
        by (auto intro: extends_trans)
      show ?thesis
      proof (cases st)
        case (Return d)
        with run False c Some t e3 p3 show ?thesis
          by (auto simp: attemptBody_def Let_def)
      next
        case Next
        with run False c Some t e3 show ?thesis
          by (auto simp: attemptBody_def Let_def)
      next
        case (Throw e)
        with run False c Some t have "attemptCatch env model e w3 = (v, w')"
          by (simp add: attemptBody_def Let_def)
        from attemptCatch_routed [OF this, of ?T] e3 show ?thesis
          by (auto intro: extends_trans)
      qed
    qed
  qed
qed

lemma attemptLoop_routed:
  "attemptLoop env model fb N a w = (out, w') \<Longrightarrow>
   \<exists>w1. extends (isThinkingModel (Some model)) w w1
      \<and> ((w' = w1 \<and> (\<forall>d. out = Returned d \<longrightarrow> parsedBy (isThinkingModel (Some model)) env d))
          \<or> (fb \<and> truthyStr (getFallbackModel env model)
              \<and> sendMessage env (orEmpty (getFallbackModel env model)) False w1 = (out, w')))"
proof (induction "N - a" arbitrary: a w)
  case 0
  then have ge: "\<not> a < N" by simp
  with "0.prems"
  have "(w' = w \<and> (\<forall>d. out \<noteq> Returned d)) \<or> (fb \<and> truthyStr (getFallbackModel env model)
          \<and> sendMessage env (orEmpty (getFallbackModel env model)) False w = (out, w'))"
    by (subst (asm) attemptLoop.simps) (auto simp: attemptLoop_hop split: if_splits)
  then show ?case by (intro exI [of _ w]) auto
next
  case (Suc n)
  let ?T = "isThinkingModel (Some model)"
  from Suc have lt: "a < N" by simp
  obtain v w1 where b: "attemptBody env model (logA (Attempt a) w) = (v, w1)"
    by (cases "attemptBody env model (logA (Attempt a) w)")
  have "extends ?T w (logA (Attempt a) w)"
    by (simp add: extends_def logA_def)
  with attemptBody_routed [OF b]
  have e1: "extends ?T w w1" and p1: "\<forall>d. v = AReturn d \<longrightarrow> parsedBy ?T env d"
    by (auto intro: extends_trans)
  from Suc.prems lt b
  have step: "(v = AContinue \<and> attemptLoop env model fb N (a + 1) w1 = (out, w'))
              \<or> (v \<noteq> AContinue \<and>
                  ((w' = w1 \<and> (\<forall>d. out = Returned d \<longrightarrow> v = AReturn d))
                   \<or> (fb \<and> truthyStr (getFallbackModel env model)
                     \<and> sendMessage env (orEmpty (getFallbackModel env model)) False w1 = (out, w'))))"
    by (subst (asm) attemptLoop.simps) (auto simp: attemptLoop_hop split: verdict.splits if_splits)
  then show ?case
  proof
    assume "v = AContinue \<and> attemptLoop env model fb N (a + 1) w1 = (out, w')"
    then have rec: "attemptLoop env model fb N (a + 1) w1 = (out, w')" by simp
    from Suc.hyps(2) have "n = N - (a + 1)" by simp
    from Suc.hyps(1) [OF this rec]
    obtain w2 where k: "extends ?T w1 w2"
      "(w' = w2 \<and> (\<forall>d. out = Returned d \<longrightarrow> parsedBy ?T env d))
       \<or> (fb \<and> truthyStr (getFallbackModel env model)
          \<and> sendMessage env (orEmpty (getFallbackModel env model)) False w2 = (out, w'))"
      by blast
    from e1 k(1) have "extends ?T w w2" by (rule extends_trans)
    with k(2) show ?thesis by blast
  next
    assume "v \<noteq> AContinue \<and>
                  ((w' = w1 \<and> (\<forall>d. out = Returned d \<longrightarrow> v = AReturn d))
                   \<or> (fb \<and> truthyStr (getFallbackModel env model)
                     \<and> sendMessage env (orEmpty (getFallbackModel env model)) False w1 = (out, w')))"
    with e1 p1 show ?thesis by (intro exI [of _ w1]) auto
  qed
qed

lemma sendMessage_routed:
  "sendMessage env model fb w = (out, w') \<Longrightarrow>
   \<exists>w1. extends (isThinkingModel (Some model)) w w1
      \<and> ((w' = w1 \<and> (\<forall>d. out = Returned d \<longrightarrow> parsedBy (isThinkingModel (Some model)) env d))
          \<or> (fb \<and> truthyStr (getFallbackModel env model)
              \<and> sendMessage env (orEmpty (getFallbackModel env model)) False w1 = (out, w')))"
proof -
  assume "sendMessage env model fb w = (out, w')"
  then have "attemptLoop env model fb (maxAttemptsOf env w) 0 (logA (Enter model fb) w) = (out, w')"
    by (simp add: sendMessage_def)
  from attemptLoop_routed [OF this] obtain w1 where
    k: "extends (isThinkingModel (Some model)) (logA (Enter model fb) w) w1"
      "(w' = w1 \<and> (\<forall>d. out = Returned d \<longrightarrow> parsedBy (isThinkingModel (Some model)) env d))
       \<or> (fb \<and> truthyStr (getFallbackModel env model)
          \<and> sendMessage env (orEmpty (getFallbackModel env model)) False w1 = (out, w'))"
    by blast
  have "extends (isThinkingModel (Some model)) w (logA (Enter model fb) w)"
    by (simp add: extends_def logA_def)
  from this k(1) have "extends (isThinkingModel (Some model)) w w1" by (rule extends_trans)
  with k(2) show ?thesis by blast
qed

text \<open>
  Claim C10. \<open>isThinkingModel\<close> holds exactly when the lower-cased name contains
  \<open>claude\<close> and \<open>thinking\<close>, or contains \<open>gemini\<close> and either contains \<open>thinking\<close> or
  matches \<open>gemini-N\<close> for a number \<open>N \<ge> 3\<close>; a \<open>null\<close> or \<open>undefined\<close> name is not a
  thinking model. So a request for a model whose lower-cased name matches \<open>gemini-N\<close>,
  \<open>N \<ge> 3\<close>, is a request for a thinking model, whether or not the name has the word
  \<open>thinking\<close>, and \<open>sendMessage\<close> routes it as server-sent events: every upstream call
  of the invocation for this model goes to \<open>streamGenerateContent?alt=sse\<close>, and a
  result it returns is what \<open>parseThinkingSSEResponse\<close> made of an answer of the
  upstream. With fallback enabled the request may go on as an invocation for the
  fallback model, which is routed by the name of that model.
\<close>

theorem isThinkingModel_iff:
  "(isThinkingModel m \<longleftrightarrow>
      (sublist ''claude'' (toLowerCase (orEmpty m)) \<and> sublist ''thinking'' (toLowerCase (orEmpty m)))
      \<or> (sublist ''gemini'' (toLowerCase (orEmpty m))
          \<and> (sublist ''thinking'' (toLowerCase (orEmpty m))
              \<or> (\<exists>n. 3 \<le> n \<and> matchesGeminiN (toLowerCase (orEmpty m)) n))))
   \<and> \<not> isThinkingModel None
   \<and> (3 \<le> n \<and> matchesGeminiN (toLowerCase name) n \<and> sendMessage env name fb w = (out, w')
        \<longrightarrow> isThinkingModel (Some name)
            \<and> (\<exists>w1 tr. trace w1 = trace w @ tr \<and> list_all (routed True) tr
                  \<and> ((w' = w1 \<and> (\<forall>d. out = Returned d \<longrightarrow> parsedBy True env d))
                      \<or> (fb \<and> truthyStr (getFallbackModel env name)
                          \<and> sendMessage env (orEmpty (getFallbackModel env name)) False w1 = (out, w')))))"
proof (intro conjI impI)
  show "isThinkingModel m \<longleftrightarrow>
      (sublist ''claude'' (toLowerCase (orEmpty m)) \<and> sublist ''thinking'' (toLowerCase (orEmpty m)))
      \<or> (sublist ''gemini'' (toLowerCase (orEmpty m))
          \<and> (sublist ''thinking'' (toLowerCase (orEmpty m))
              \<or> (\<exists>n. 3 \<le> n \<and> matchesGeminiN (toLowerCase (orEmpty m)) n)))"
    by (rule isThinkingModel_unfolded)
  show "\<not> isThinkingModel None"
    by (simp add: isThinkingModel_def orEmpty_def toLowerCase.simps)
next
  assume h: "3 \<le> n \<and> matchesGeminiN (toLowerCase name) n \<and> sendMessage env name fb w = (out, w')"
  then have "sublist ''gemini'' (toLowerCase name)"
    by (auto dest: matchesGeminiN_gemini)
  with h show t: "isThinkingModel (Some name)"
    unfolding isThinkingModel_unfolded [of "Some name"] by (auto simp: orEmpty_def)
  from h have "sendMessage env name fb w = (out, w')" by simp
  from sendMessage_routed [OF this] t
  show "\<exists>w1 tr. trace w1 = trace w @ tr \<and> list_all (routed True) tr
                  \<and> ((w' = w1 \<and> (\<forall>d. out = Returned d \<longrightarrow> parsedBy True env d))
                      \<or> (fb \<and> truthyStr (getFallbackModel env name)
                          \<and> sendMessage env (orEmpty (getFallbackModel env name)) False w1 = (out, w')))"
    unfolding extends_def by auto
qed

lemma run_gemini3:
  "sendMessage (testEnv [parsedAnswer] parsedAnswer) ''Gemini-3-Flash'' False oneAccount
   = (Returned ''parsed as SSE'',
      \<lparr>am = \<lparr>pool_accounts = [''a@x''], pool_limits = [],
              pool_sticky = [(''Gemini-3-Flash'', ''a@x'')], pool_cursor = 0,
              pool_now = 0, pool_tokens = [(''a@x'', ''token-0'')],
              pool_projects = [(''a@x'', ''project-1'')], pool_refreshes = 1\<rparr>,
        calls = 1,
        trace =
          [Enter ''Gemini-3-Flash'' False, Attempt 0, ClearExpiredLimits,
           PickNext ''Gemini-3-Flash'',
           Fetch ''https://daily-cloudcode-pa.googleapis.com/v1internal:streamGenerateContent?alt=sse''
             ''token-0'']\<rparr>)"
  by (simp add: run parsedAnswer_def)

theorem isThinkingModel_iff_witness:
  "matchesGeminiN (toLowerCase ''Gemini-3-Flash'') 3
   \<and> \<not> sublist ''thinking'' (toLowerCase ''Gemini-3-Flash'')
   \<and> isThinkingModel (Some ''Gemini-3-Flash'')
   \<and> fst (sendMessage (testEnv [parsedAnswer] parsedAnswer) ''Gemini-3-Flash'' False oneAccount)
       = Returned ''parsed as SSE''
   \<and> trace (snd (sendMessage (testEnv [parsedAnswer] parsedAnswer) ''Gemini-3-Flash'' False oneAccount))
       = [Enter ''Gemini-3-Flash'' False, Attempt 0, ClearExpiredLimits, PickNext ''Gemini-3-Flash'',
          Fetch ''https://daily-cloudcode-pa.googleapis.com/v1internal:streamGenerateContent?alt=sse''
            ''token-0'']
   \<and> parsedBy True (testEnv [parsedAnswer] parsedAnswer) ''parsed as SSE''
   \<and> \<not> isThinkingModel (Some ''gemini-2.5-flash-lite'')
   \<and> \<not> isThinkingModel (Some ''gemini-2-gemini-3'')
   \<and> isThinkingModel (Some (''claude-thin'' @ KELVIN_SIGN @ ''ing''))"
proof -
  have low: "toLowerCase ''Gemini-3-Flash'' = ''gemini-3-flash''"
    by code_simp
  have "versionMatch ''gemini-3-flash'' = Some ''3''"
    by code_simp
  from versionMatch_value [OF this] have m: "matchesGeminiN (toLowerCase ''Gemini-3-Flash'') 3"
    unfolding low by (simp add: parseInt10_def)
  have no: "\<not> sublist ''thinking'' (toLowerCase ''Gemini-3-Flash'')"
    unfolding low includesStr_sublist [symmetric] by simp
  have others: "\<not> isThinkingModel (Some ''gemini-2.5-flash-lite'')"
    "\<not> isThinkingModel (Some ''gemini-2-gemini-3'')"
    "isThinkingModel (Some (''claude-thin'' @ KELVIN_SIGN @ ''ing''))"
    by code_simp+
  note r = run_gemini3
  from isThinkingModel_iff [of "Some ''Gemini-3-Flash''" 3 "''Gemini-3-Flash''"
      "testEnv [parsedAnswer] parsedAnswer" False oneAccount "Returned ''parsed as SSE''"
      "snd (sendMessage (testEnv [parsedAnswer] parsedAnswer) ''Gemini-3-Flash'' False oneAccount)"]
    m r
  have "isThinkingModel (Some ''Gemini-3-Flash'')
      \<and> parsedBy True (testEnv [parsedAnswer] parsedAnswer) ''parsed as SSE''"
    by auto
  with m no others r show ?thesis by simp
qed

end
